theory Spec2Isabelle
  imports Main
begin

section \<open>The CI helper module \<open>ci_tools.py\<close>\<close>

text \<open>
  The module is a handful of wrappers over the process environment, the shell and
  Python's \<open>configparser\<close>. State is passed explicitly: each function takes the part
  of the world it touches and returns it updated. Every exception of the source is a
  value of \<open>error\<close>, and a function that may raise returns \<open>error + 'a\<close> with \<open>Inl\<close>
  for the exception. The interpreter's \<open>sys.version_info.major\<close>, which the source
  tests in several places, is the parameter \<open>major\<close>. The source's \<open>_get_value\<close> and
  \<open>_get_config_parser\<close> are \<open>get_value\<close> and \<open>get_config_parser\<close> here.

  A Python string counts code points, so a character of a string of the model is one
  code point, and the model's strings are those whose code points are all below 256.
\<close>

datatype error =
    KeyError string
  | NoSectionError string
  | NoOptionError string string
  | InterpolationDepthError string string
  | InterpolationSyntaxError string string
  | InterpolationMissingOptionError string string string
  | FileNotFoundError string
  | ParsingError string
  | CalledProcessError int string
  | RuntimeError string
  | ValueError string
  | OSError string

subsection \<open>Environment variables\<close>

text \<open>
  \<open>os.environ\<close> is a mapping from names to values. Reading a name that is not a key
  raises \<open>KeyError\<close>. Assigning to a name first hands name and value to \<open>putenv\<close> and
  stores the pair only when that call returns: \<open>putenv\<close> raises \<open>ValueError\<close> for a NUL
  character in the name or in the value and for a name that holds \<open>=\<close>, and the
  operating system refuses the empty name (\<open>OSError\<close>).
\<close>

type_synonym environ = "string \<rightharpoonup> string"

definition get_environment_value :: "environ \<Rightarrow> string \<Rightarrow> error + string" where
  "get_environment_value environ variable_name =
     (case environ variable_name of
        None \<Rightarrow> Inl (KeyError variable_name)
      | Some v \<Rightarrow> Inr v)"

definition putenv :: "string \<Rightarrow> string \<Rightarrow> error + unit" where
  "putenv name v =
     (if CHR 0x00 \<in> set name \<or> CHR 0x00 \<in> set v
      then Inl (ValueError ''embedded null byte'')
      else if CHR ''='' \<in> set name
      then Inl (ValueError ''illegal environment variable name'')
      else if name = [] then Inl (OSError ''Invalid argument'')
      else Inr ())"

text \<open>The function returns the environment after the call and the outcome of the
  call: when \<open>putenv\<close> raises, nothing is stored.\<close>

definition set_environment_value ::
  "environ \<Rightarrow> string \<Rightarrow> string \<Rightarrow> environ \<times> (error + unit)" where
  "set_environment_value environ variable_name variable_value =
     (case putenv variable_name variable_value of
        Inl e \<Rightarrow> (environ, Inl e)
      | Inr _ \<Rightarrow> (environ(variable_name \<mapsto> variable_value), Inr ()))"

subsection \<open>Running a console command\<close>

text \<open>
  The shell is the parameter \<open>sh\<close>: the exit status with which it finishes a command
  (a command that never ends is outside the model). \<open>subprocess.call\<close> returns that
  status and the source drops it; \<open>subprocess.run\<close> with \<open>check=True\<close> raises
  \<open>CalledProcessError\<close> when it is not 0.
\<close>

definition subprocess_call :: "(string \<Rightarrow> int) \<Rightarrow> string \<Rightarrow> int" where
  "subprocess_call sh command = sh command"

definition subprocess_run_check :: "(string \<Rightarrow> int) \<Rightarrow> string \<Rightarrow> error + int" where
  "subprocess_run_check sh command =
     (let returncode = sh command
      in if returncode \<noteq> 0 then Inl (CalledProcessError returncode command)
         else Inr returncode)"

definition run_console_command :: "(string \<Rightarrow> int) \<Rightarrow> nat \<Rightarrow> string \<Rightarrow> error + unit" where
  "run_console_command sh major command =
     (if major < 3 then (let _ = subprocess_call sh command in Inr ())
      else (case subprocess_run_check sh command of
              Inl e \<Rightarrow> Inl e
            | Inr _ \<Rightarrow> Inr ()))"

subsection \<open>Stripping characters from both ends\<close>

abbreviation DQ :: char where
  "DQ \<equiv> CHR 0x22"

text \<open>\<open>s.strip(chars)\<close>: every leading and every trailing character of \<open>s\<close> that occurs
  in \<open>chars\<close> is removed.\<close>

definition lstrip :: "string \<Rightarrow> string \<Rightarrow> string" where
  "lstrip s chars = dropWhile (\<lambda>c. c \<in> set chars) s"

definition rstrip :: "string \<Rightarrow> string \<Rightarrow> string" where
  "rstrip s chars = rev (dropWhile (\<lambda>c. c \<in> set chars) (rev s))"

definition strip :: "string \<Rightarrow> string \<Rightarrow> string" where
  "strip s chars = rstrip (lstrip s chars) chars"

subsection \<open>The configuration parser of the library\<close>

text \<open>
  What the module uses of \<open>configparser.ConfigParser\<close>, as Python 3's library defines
  it: a parser holds its interpolation, the options of the default section and the
  options of every other section (option names are stored lower-cased, values as
  written in the file, quotes included). Turning the text of a file into sections is
  the library's \<open>read_file\<close>; it is a parameter of the functions below that read a
  file, so that a text the library rejects, or a library that cannot read at all, is a
  \<open>read_file\<close> that returns an error.
\<close>

datatype interpolation = BasicInterpolation | ExtendedInterpolation

record parser =
  interpolation :: interpolation
  defaults :: "string \<rightharpoonup> string"
  sections :: "string \<rightharpoonup> (string \<rightharpoonup> string)"

definition default_section :: string where
  "default_section = ''DEFAULT''"

definition MAX_INTERPOLATION_DEPTH :: nat where
  "MAX_INTERPOLATION_DEPTH = 10"

definition ConfigParser :: "interpolation \<Rightarrow> parser" where
  "ConfigParser i = \<lparr>interpolation = i, defaults = Map.empty, sections = Map.empty\<rparr>"

text \<open>
  \<open>optionxform\<close> is \<open>str.lower\<close>. Below 256 the cased letters with a lower-case form of
  their own are \<open>A\<close>..\<open>Z\<close> (65..90) and the accented capitals 192..214 and 216..222
  (215 is the multiplication sign); the lower-case form of each is 32 above it.
\<close>

definition lower_char :: "char \<Rightarrow> char" where
  "lower_char c =
     (let n = of_char c :: nat
      in if (65 \<le> n \<and> n \<le> 90) \<or> (192 \<le> n \<and> n \<le> 214) \<or> (216 \<le> n \<and> n \<le> 222)
         then char_of (n + 32) else c)"

definition optionxform :: "string \<Rightarrow> string" where
  "optionxform optionstr = map lower_char optionstr"

text \<open>\<open>s.split(sep)\<close> for a separator of one character.\<close>

fun split :: "string \<Rightarrow> char \<Rightarrow> string list" where
  "split [] sep = [[]]"
| "split (c # cs) sep =
     (if c = sep then [] # split cs sep
      else (case split cs sep of
              [] \<Rightarrow> [[c]]
            | w # ws \<Rightarrow> (c # w) # ws))"

definition has_section :: "parser \<Rightarrow> string \<Rightarrow> bool" where
  "has_section parser section = (sections parser section \<noteq> None)"

definition has_option :: "parser \<Rightarrow> string \<Rightarrow> string \<Rightarrow> bool" where
  "has_option parser section option =
     (if section = [] \<or> section = default_section
      then defaults parser (optionxform option) \<noteq> None
      else (case sections parser section of
              None \<Rightarrow> False
            | Some sectiondict \<Rightarrow>
                sectiondict (optionxform option) \<noteq> None
                \<or> defaults parser (optionxform option) \<noteq> None))"

text \<open>\<open>_unify_values\<close>: the options visible in a section are its own, then those of the
  default section (a chain of the two dictionaries).\<close>

definition unify_values :: "parser \<Rightarrow> string \<Rightarrow> error + (string \<rightharpoonup> string)" where
  "unify_values parser section =
     (case sections parser section of
        Some sectiondict \<Rightarrow> Inr (defaults parser ++ sectiondict)
      | None \<Rightarrow>
          if section \<noteq> default_section then Inl (NoSectionError section)
          else Inr (defaults parser))"

text \<open>\<open>parser.get(section, option, raw=True)\<close> and \<open>dict(parser.items(section, raw=True))\<close>,
  as the interpolation calls them.\<close>

definition get_raw :: "parser \<Rightarrow> string \<Rightarrow> string \<Rightarrow> error + string" where
  "get_raw parser section option =
     (case unify_values parser section of
        Inl e \<Rightarrow> Inl e
      | Inr d \<Rightarrow>
          (case d (optionxform option) of
             None \<Rightarrow> Inl (NoOptionError (optionxform option) section)
           | Some v \<Rightarrow> Inr v))"

definition items_raw :: "parser \<Rightarrow> string \<Rightarrow> error + (string \<rightharpoonup> string)" where
  "items_raw parser section =
     (case sections parser section of
        Some sectiondict \<Rightarrow> Inr (defaults parser ++ sectiondict)
      | None \<Rightarrow>
          if section \<noteq> default_section then Inl (NoSectionError section)
          else Inr (defaults parser))"

text \<open>
  The two regular expressions of the interpolations, matched at the start of a string:
  \<open>\$\{([^}]+)\}\<close> and \<open>%\(([^)]+)\)s\<close>. A match gives the name inside the brackets and
  the text after the match.
\<close>

definition KEYCRE_extended :: "string \<Rightarrow> (string \<times> string) option" where
  "KEYCRE_extended s =
     (let body = drop 2 s;
          name = takeWhile (\<lambda>c. c \<noteq> CHR ''}'') body;
          closing = dropWhile (\<lambda>c. c \<noteq> CHR ''}'') body
      in if take 2 s = ''${'' \<and> name \<noteq> [] \<and> closing \<noteq> []
         then Some (name, drop 1 closing) else None)"

definition KEYCRE_basic :: "string \<Rightarrow> (string \<times> string) option" where
  "KEYCRE_basic s =
     (let body = drop 2 s;
          name = takeWhile (\<lambda>c. c \<noteq> CHR '')'') body;
          closing = dropWhile (\<lambda>c. c \<noteq> CHR '')'') body
      in if take 2 s = ''%('' \<and> name \<noteq> [] \<and> take 2 closing = '')s''
         then Some (name, drop 2 closing) else None)"

text \<open>A match consumes at least its brackets: what is left after it is shorter.\<close>

lemma length_dropWhile_le_self: "length (dropWhile P xs) \<le> length xs"
  by (induction xs) simp_all

lemma drop_dropWhile_shorter:
  "rest \<noteq> [] \<Longrightarrow> length (dropWhile P rest) - 2 < length rest"
  using length_dropWhile_le_self [of P rest] by (cases rest) auto

lemma KEYCRE_extended_shorter:
  "KEYCRE_extended s = Some (g, r) \<Longrightarrow> length r < length s"
proof -
  assume m: "KEYCRE_extended s = Some (g, r)"
  define closing where "closing = dropWhile (\<lambda>c. c \<noteq> CHR ''}'') (drop 2 s)"
  from m have ne: "closing \<noteq> []" and r: "r = drop 1 closing"
    by (auto simp: KEYCRE_extended_def Let_def closing_def split: if_splits)
  have "length closing \<le> length (drop 2 s)"
    unfolding closing_def by (rule length_dropWhile_le_self)
  with ne r show ?thesis
    by (cases closing) auto
qed

lemma KEYCRE_extended_dropWhile_shorter:
  "KEYCRE_extended (dropWhile P rest) = Some (g, r) \<Longrightarrow> length r < length rest"
  using KEYCRE_extended_shorter [of "dropWhile P rest" g r]
    length_dropWhile_le_self [of P rest]
  by simp

lemma KEYCRE_basic_shorter:
  "KEYCRE_basic s = Some (g, r) \<Longrightarrow> length r < length s"
proof -
  assume m: "KEYCRE_basic s = Some (g, r)"
  define closing where "closing = dropWhile (\<lambda>c. c \<noteq> CHR '')'') (drop 2 s)"
  from m have ne: "take 2 closing = '')s''" and r: "r = drop 2 closing"
    by (auto simp: KEYCRE_basic_def Let_def closing_def split: if_splits)
  have "length closing \<le> length (drop 2 s)"
    unfolding closing_def by (rule length_dropWhile_le_self)
  with ne r show ?thesis
    by (cases closing) auto
qed

lemma KEYCRE_basic_dropWhile_shorter:
  "KEYCRE_basic (dropWhile P rest) = Some (g, r) \<Longrightarrow> length r < length rest"
  using KEYCRE_basic_shorter [of "dropWhile P rest" g r]
    length_dropWhile_le_self [of P rest]
  by simp

text \<open>The reference \<open>${option}\<close> or \<open>${section:option}\<close> of the extended interpolation:
  the section and option it names and the raw value found there.\<close>

definition reference_extended ::
  "parser \<Rightarrow> string \<Rightarrow> string \<Rightarrow> (string \<rightharpoonup> string) \<Rightarrow> string
   \<Rightarrow> error + (string \<times> string \<times> string)" where
  "reference_extended parser option section mapping name =
     (let path = split name (CHR '':'')
      in if length path = 1 then
           (let opt = optionxform (path ! 0)
            in case mapping opt of
                 None \<Rightarrow> Inl (InterpolationMissingOptionError option section name)
               | Some v \<Rightarrow> Inr (section, opt, v))
         else if length path = 2 then
           (let sect = path ! 0; opt = optionxform (path ! 1)
            in case get_raw parser sect opt of
                 Inl _ \<Rightarrow> Inl (InterpolationMissingOptionError option section name)
               | Inr v \<Rightarrow> Inr (sect, opt, v))
         else Inl (InterpolationSyntaxError option section))"

text \<open>
  \<open>ExtendedInterpolation._interpolate_some\<close>: the depth is checked on entry, then the
  loop consumes \<open>rest\<close> up to each \<open>$\<close>, appending to \<open>accum\<close>; a referenced value that
  holds a \<open>$\<close> itself is interpolated one level deeper.
\<close>

function
  extended_interpolate_some ::
    "parser \<Rightarrow> string \<Rightarrow> string \<Rightarrow> string \<Rightarrow> string \<Rightarrow> (string \<rightharpoonup> string) \<Rightarrow> nat
     \<Rightarrow> error + string"
  and extended_interpolate_loop ::
    "parser \<Rightarrow> string \<Rightarrow> string \<Rightarrow> string \<Rightarrow> string \<Rightarrow> (string \<rightharpoonup> string) \<Rightarrow> nat
     \<Rightarrow> error + string"
where
  "extended_interpolate_some parser option accum rest section mapping depth =
     (if depth > MAX_INTERPOLATION_DEPTH then Inl (InterpolationDepthError option section)
      else extended_interpolate_loop parser option accum rest section mapping depth)"
| "extended_interpolate_loop parser option accum rest section mapping depth =
     (if rest = [] then Inr accum
      else if CHR ''$'' \<notin> set rest then Inr (accum @ rest)
      else if take 1 (drop 1 (dropWhile (\<lambda>c. c \<noteq> CHR ''$'') rest)) = ''$'' then
        extended_interpolate_loop parser option
          (accum @ takeWhile (\<lambda>c. c \<noteq> CHR ''$'') rest @ ''$'')
          (drop 2 (dropWhile (\<lambda>c. c \<noteq> CHR ''$'') rest)) section mapping depth
      else if take 1 (drop 1 (dropWhile (\<lambda>c. c \<noteq> CHR ''$'') rest)) = ''{'' then
        (case KEYCRE_extended (dropWhile (\<lambda>c. c \<noteq> CHR ''$'') rest) of
           None \<Rightarrow> Inl (InterpolationSyntaxError option section)
         | Some (name, rest') \<Rightarrow>
             (case reference_extended parser option section mapping name of
                Inl e \<Rightarrow> Inl e
              | Inr (sect, opt, v) \<Rightarrow>
                  if CHR ''$'' \<in> set v then
                    (case items_raw parser sect of
                       Inl e \<Rightarrow> Inl e
                     | Inr sect_items \<Rightarrow>
                         (case extended_interpolate_some parser opt
                                 (accum @ takeWhile (\<lambda>c. c \<noteq> CHR ''$'') rest)
                                 v sect sect_items (depth + 1) of
                            Inl e \<Rightarrow> Inl e
                          | Inr accum' \<Rightarrow>
                              extended_interpolate_loop parser option accum' rest'
                                section mapping depth))
                  else
                    extended_interpolate_loop parser option
                      (accum @ takeWhile (\<lambda>c. c \<noteq> CHR ''$'') rest @ v)
                      rest' section mapping depth))
      else Inl (InterpolationSyntaxError option section))"
  by pat_completeness auto

termination
proof (relation "inv_image (less_than <*lex*> less_than)
     (\<lambda>x. case x of
         Inl (parser, option, accum, rest, section, mapping, depth) \<Rightarrow>
           (if depth > MAX_INTERPOLATION_DEPTH then 0
            else 2 * (Suc MAX_INTERPOLATION_DEPTH - depth) + 2, 0)
       | Inr (parser, option, accum, rest, section, mapping, depth) \<Rightarrow>
           (2 * (Suc MAX_INTERPOLATION_DEPTH - depth) + 1, length rest))", goal_cases)
  case 1
  show ?case
    by (intro wf_inv_image wf_lex_prod wf_less_than)
next
  case 2
  then show ?case by simp
next
  case 3
  then show ?case by (simp add: drop_dropWhile_shorter)
next
  case 4
  then show ?case by (simp; arith)
next
  case 5
  then show ?case by (auto dest: KEYCRE_extended_dropWhile_shorter)
next
  case 6
  then show ?case by (auto dest: KEYCRE_extended_dropWhile_shorter)
qed

text \<open>
  \<open>BasicInterpolation._interpolate_some\<close>, the default of \<open>ConfigParser()\<close>: the marker
  is \<open>%\<close>, a reference is \<open>%(option)s\<close> and is looked up in the section at hand.
\<close>

function
  basic_interpolate_some ::
    "parser \<Rightarrow> string \<Rightarrow> string \<Rightarrow> string \<Rightarrow> string \<Rightarrow> (string \<rightharpoonup> string) \<Rightarrow> nat
     \<Rightarrow> error + string"
  and basic_interpolate_loop ::
    "parser \<Rightarrow> string \<Rightarrow> string \<Rightarrow> string \<Rightarrow> string \<Rightarrow> (string \<rightharpoonup> string) \<Rightarrow> nat
     \<Rightarrow> error + string"
where
  "basic_interpolate_some parser option accum rest section mapping depth =
     (if depth > MAX_INTERPOLATION_DEPTH then Inl (InterpolationDepthError option section)
      else basic_interpolate_loop parser option accum rest section mapping depth)"
| "basic_interpolate_loop parser option accum rest section mapping depth =
     (if rest = [] then Inr accum
      else if CHR ''%'' \<notin> set rest then Inr (accum @ rest)
      else if take 1 (drop 1 (dropWhile (\<lambda>c. c \<noteq> CHR ''%'') rest)) = ''%'' then
        basic_interpolate_loop parser option
          (accum @ takeWhile (\<lambda>c. c \<noteq> CHR ''%'') rest @ ''%'')
          (drop 2 (dropWhile (\<lambda>c. c \<noteq> CHR ''%'') rest)) section mapping depth
      else if take 1 (drop 1 (dropWhile (\<lambda>c. c \<noteq> CHR ''%'') rest)) = ''('' then
        (case KEYCRE_basic (dropWhile (\<lambda>c. c \<noteq> CHR ''%'') rest) of
           None \<Rightarrow> Inl (InterpolationSyntaxError option section)
         | Some (name, rest') \<Rightarrow>
             (case mapping (optionxform name) of
                None \<Rightarrow>
                  Inl (InterpolationMissingOptionError option section (optionxform name))
              | Some v \<Rightarrow>
                  if CHR ''%'' \<in> set v then
                    (case basic_interpolate_some parser option
                            (accum @ takeWhile (\<lambda>c. c \<noteq> CHR ''%'') rest)
                            v section mapping (depth + 1) of
                       Inl e \<Rightarrow> Inl e
                     | Inr accum' \<Rightarrow>
                         basic_interpolate_loop parser option accum' rest'
                           section mapping depth)
                  else
                    basic_interpolate_loop parser option
                      (accum @ takeWhile (\<lambda>c. c \<noteq> CHR ''%'') rest @ v)
                      rest' section mapping depth))
      else Inl (InterpolationSyntaxError option section))"
  by pat_completeness auto

termination
proof (relation "inv_image (less_than <*lex*> less_than)
     (\<lambda>x. case x of
         Inl (parser, option, accum, rest, section, mapping, depth) \<Rightarrow>
           (if depth > MAX_INTERPOLATION_DEPTH then 0
            else 2 * (Suc MAX_INTERPOLATION_DEPTH - depth) + 2, 0)
       | Inr (parser, option, accum, rest, section, mapping, depth) \<Rightarrow>
           (2 * (Suc MAX_INTERPOLATION_DEPTH - depth) + 1, length rest))", goal_cases)
  case 1
  show ?case
    by (intro wf_inv_image wf_lex_prod wf_less_than)
next
  case 2
  then show ?case by simp
next
  case 3
  then show ?case by (simp add: drop_dropWhile_shorter)
next
  case 4
  then show ?case by (simp; arith)
next
  case 5
  then show ?case by (auto dest: KEYCRE_basic_dropWhile_shorter)
next
  case 6
  then show ?case by (auto dest: KEYCRE_basic_dropWhile_shorter)
qed

text \<open>\<open>before_get\<close> starts the interpolation of a value with an empty accumulator at
  depth 1.\<close>

definition before_get ::
  "parser \<Rightarrow> string \<Rightarrow> string \<Rightarrow> string \<Rightarrow> (string \<rightharpoonup> string) \<Rightarrow> error + string" where
  "before_get parser section option v d =
     (case interpolation parser of
        ExtendedInterpolation \<Rightarrow> extended_interpolate_some parser option [] v section d 1
      | BasicInterpolation \<Rightarrow> basic_interpolate_some parser option [] v section d 1)"

text \<open>\<open>parser.get(section, option)\<close>.\<close>

definition get :: "parser \<Rightarrow> string \<Rightarrow> string \<Rightarrow> error + string" where
  "get parser section option =
     (case unify_values parser section of
        Inl e \<Rightarrow> Inl e
      | Inr d \<Rightarrow>
          (case d (optionxform option) of
             None \<Rightarrow> Inl (NoOptionError (optionxform option) section)
           | Some v \<Rightarrow> before_get parser section (optionxform option) v d))"

text \<open>\<open>parser[section][key]\<close>: the parser's \<open>__getitem__\<close> gives the proxy of a section,
  the proxy's \<open>__getitem__\<close> the value.\<close>

definition getitem :: "parser \<Rightarrow> string \<Rightarrow> string \<Rightarrow> error + string" where
  "getitem parser section key =
     (if section \<noteq> default_section \<and> \<not> has_section parser section
      then Inl (KeyError section)
      else if \<not> has_option parser section key then Inl (KeyError key)
      else get parser section key)"

subsection \<open>Files\<close>

text \<open>
  The file system holds the text of each file, the descriptors that \<open>open\<close> has handed
  out and on which no \<open>close\<close> has been called since, and the next free descriptor.
\<close>

record filesystem =
  files :: "string \<rightharpoonup> string"
  unclosed :: "nat set"
  next_fd :: nat

definition open_file :: "filesystem \<Rightarrow> string \<Rightarrow> filesystem \<times> (error + nat \<times> string)" where
  "open_file fs name =
     (case files fs name of
        None \<Rightarrow> (fs, Inl (FileNotFoundError name))
      | Some content \<Rightarrow>
          (fs\<lparr>unclosed := insert (next_fd fs) (unclosed fs), next_fd := Suc (next_fd fs)\<rparr>,
           Inr (next_fd fs, content)))"

subsection \<open>Reading the configuration\<close>

definition get_config_parser :: "nat \<Rightarrow> parser" where
  "get_config_parser major =
     (if major = 3 then ConfigParser ExtendedInterpolation
      else ConfigParser BasicInterpolation)"

definition get_value :: "nat \<Rightarrow> parser \<Rightarrow> string \<Rightarrow> string \<Rightarrow> error + string" where
  "get_value major parser section parameter =
     (case (if major = 3 then getitem parser section parameter
            else get parser section parameter) of
        Inl e \<Rightarrow> Inl e
      | Inr v \<Rightarrow> Inr (strip v [DQ]))"

text \<open>
  \<open>read_configuration\<close> is a generator under \<open>contextlib.contextmanager\<close>. The function
  below is its run up to the \<open>yield\<close>: it makes the parser, opens the file and has the
  parser read it. Nothing follows the \<open>yield\<close>, and the \<open>yield\<close> is not inside a
  \<open>try\<close>: leaving the \<open>with\<close> block, normally or by an exception, runs no statement of
  the generator, so \<open>with_read_configuration\<close> returns the file system as it was when
  the block was entered, and the outcome of the block.
\<close>

definition read_configuration ::
  "(parser \<Rightarrow> string \<Rightarrow> error + parser) \<Rightarrow> nat \<Rightarrow> filesystem \<Rightarrow> string
   \<Rightarrow> filesystem \<times> (error + parser)" where
  "read_configuration read_file major fs configuration_file =
     (let parser = get_config_parser major
      in case open_file fs configuration_file of
           (fs', Inl e) \<Rightarrow> (fs', Inl e)
         | (fs', Inr (fd, content)) \<Rightarrow> (fs', read_file parser content))"

definition with_read_configuration ::
  "(parser \<Rightarrow> string \<Rightarrow> error + parser) \<Rightarrow> nat \<Rightarrow> filesystem \<Rightarrow> string
   \<Rightarrow> (parser \<Rightarrow> error + 'a) \<Rightarrow> filesystem \<times> (error + 'a)" where
  "with_read_configuration read_file major fs configuration_file body =
     (case read_configuration read_file major fs configuration_file of
        (fs', Inl e) \<Rightarrow> (fs', Inl e)
      | (fs', Inr parser) \<Rightarrow> (fs', body parser))"

text \<open>
  The four lookups run in the order of the source, inside the \<open>with\<close> block. The
  dictionary they fill is local to the function: when a lookup raises, the caller sees
  the exception and nothing of the dictionary.
\<close>

definition get_current_configuration_values ::
  "(parser \<Rightarrow> string \<Rightarrow> error + parser) \<Rightarrow> nat \<Rightarrow> filesystem \<Rightarrow> string
   \<Rightarrow> filesystem \<times> (error + (string \<rightharpoonup> string))" where
  "get_current_configuration_values read_file major fs configuration_file =
     with_read_configuration read_file major fs configuration_file
       (\<lambda>parser.
          case get_value major parser ''package'' ''name'' of
            Inl e \<Rightarrow> Inl e
          | Inr name \<Rightarrow>
          (case get_value major parser ''package'' ''version'' of
            Inl e \<Rightarrow> Inl e
          | Inr version \<Rightarrow>
          (case get_value major parser ''package'' ''description'' of
            Inl e \<Rightarrow> Inl e
          | Inr description \<Rightarrow>
          (case get_value major parser ''package'' ''homepage'' of
            Inl e \<Rightarrow> Inl e
          | Inr homepage \<Rightarrow>
              Inr (Map.empty(''name'' \<mapsto> name, ''version'' \<mapsto> version,
                     ''description'' \<mapsto> description, ''homepage'' \<mapsto> homepage))))))"

definition get_app_name ::
  "(parser \<Rightarrow> string \<Rightarrow> error + parser) \<Rightarrow> nat \<Rightarrow> filesystem \<Rightarrow> string
   \<Rightarrow> filesystem \<times> (error + string)" where
  "get_app_name read_file major fs configuration_file =
     with_read_configuration read_file major fs configuration_file
       (\<lambda>parser. get_value major parser ''DEFAULT'' ''app'')"

subsection \<open>Which errors are lookup errors\<close>

definition lookup_error :: "error \<Rightarrow> bool" where
  "lookup_error e =
     (case e of
        KeyError _ \<Rightarrow> True
      | NoSectionError _ \<Rightarrow> True
      | NoOptionError _ _ \<Rightarrow> True
      | _ \<Rightarrow> False)"

subsection \<open>Sample files, parsers and a sample shell\<close>

text \<open>
  Concrete inputs on which the theorems below are exercised: files, the parsers that
  \<open>read_file\<close> makes of them, parsers whose values carry quotes and references in
  several ways, and a shell in which \<open>exit 1\<close> ends with status 1.
\<close>

definition sample_text :: string where
  "sample_text =
     ''[package]'' @ [CHR 0x0A] @
     ''name = '' @ DQ # ''foo'' @ DQ # [CHR 0x0A] @
     ''version = '' @ DQ # ''1.0'' @ DQ # [CHR 0x0A] @
     ''description = '' @ DQ # ''d'' @ DQ # [CHR 0x0A] @
     ''homepage = '' @ DQ # ''h'' @ DQ # [CHR 0x0A]"

definition sample_package :: "string \<rightharpoonup> string" where
  "sample_package =
     Map.empty(''name'' \<mapsto> DQ # ''foo'' @ [DQ], ''version'' \<mapsto> DQ # ''1.0'' @ [DQ],
       ''description'' \<mapsto> DQ # ''d'' @ [DQ], ''homepage'' \<mapsto> DQ # ''h'' @ [DQ])"

definition defaulted_text :: string where
  "defaulted_text =
     ''[DEFAULT]'' @ [CHR 0x0A] @
     ''name = '' @ DQ # ''foo'' @ DQ # [CHR 0x0A] @
     ''[package]'' @ [CHR 0x0A] @
     ''version = '' @ DQ # ''1.0'' @ DQ # [CHR 0x0A] @
     ''description = '' @ DQ # ''d'' @ DQ # [CHR 0x0A] @
     ''homepage = '' @ DQ # ''h'' @ DQ # [CHR 0x0A]"

definition defaulted_package :: "string \<rightharpoonup> string" where
  "defaulted_package =
     Map.empty(''version'' \<mapsto> DQ # ''1.0'' @ [DQ],
       ''description'' \<mapsto> DQ # ''d'' @ [DQ], ''homepage'' \<mapsto> DQ # ''h'' @ [DQ])"

definition defaulted_parser :: parser where
  "defaulted_parser =
     \<lparr>interpolation = ExtendedInterpolation,
      defaults = Map.empty(''name'' \<mapsto> DQ # ''foo'' @ [DQ]),
      sections = Map.empty(''package'' \<mapsto> defaulted_package)\<rparr>"

definition incomplete_text :: string where
  "incomplete_text =
     ''[package]'' @ [CHR 0x0A] @
     ''name = '' @ DQ # ''foo'' @ DQ # [CHR 0x0A] @
     ''version = '' @ DQ # ''1.0'' @ DQ # [CHR 0x0A]"

definition incomplete_package :: "string \<rightharpoonup> string" where
  "incomplete_package =
     Map.empty(''name'' \<mapsto> DQ # ''foo'' @ [DQ], ''version'' \<mapsto> DQ # ''1.0'' @ [DQ])"

definition incomplete_parser :: parser where
  "incomplete_parser =
     \<lparr>interpolation = ExtendedInterpolation,
      defaults = Map.empty,
      sections = Map.empty(''package'' \<mapsto> incomplete_package)\<rparr>"

definition broken_text :: string where
  "broken_text = ''name = foo'' @ [CHR 0x0A]"

definition sample_read_file :: "parser \<Rightarrow> string \<Rightarrow> error + parser" where
  "sample_read_file parser content =
     (if content = sample_text then
        Inr (parser\<lparr>sections := Map.empty(''package'' \<mapsto> sample_package)\<rparr>)
      else if content = defaulted_text then
        Inr (parser\<lparr>defaults := Map.empty(''name'' \<mapsto> DQ # ''foo'' @ [DQ]),
                    sections := Map.empty(''package'' \<mapsto> defaulted_package)\<rparr>)
      else if content = incomplete_text then
        Inr (parser\<lparr>sections := Map.empty(''package'' \<mapsto> incomplete_package)\<rparr>)
      else Inl (ParsingError content))"

definition sample_fs :: filesystem where
  "sample_fs =
     \<lparr>files = Map.empty(''Cargo.toml'' \<mapsto> sample_text, ''defaulted.toml'' \<mapsto> defaulted_text,
                ''incomplete.toml'' \<mapsto> incomplete_text, ''broken.toml'' \<mapsto> broken_text),
      unclosed = {}, next_fd = 3\<rparr>"

definition quoting_parser :: parser where
  "quoting_parser =
     \<lparr>interpolation = ExtendedInterpolation,
      defaults = Map.empty(''app'' \<mapsto> ''test_common''),
      sections = Map.empty(''package'' \<mapsto>
        Map.empty(''name'' \<mapsto> DQ # ''foo'' @ [DQ], ''edition'' \<mapsto> ''2018'',
          ''open'' \<mapsto> DQ # ''foo'', ''twice'' \<mapsto> [DQ, DQ] @ ''foo'' @ [DQ, DQ],
          ''inner'' \<mapsto> DQ # ''a'' @ DQ # ''b'' @ [DQ]))\<rparr>"

definition interpolating_parser :: parser where
  "interpolating_parser =
     \<lparr>interpolation = ExtendedInterpolation,
      defaults = Map.empty(''root'' \<mapsto> ''/srv''),
      sections = Map.empty(''package'' \<mapsto>
        Map.empty(''path'' \<mapsto> ''a$$b'', ''home'' \<mapsto> DQ # ''${root}/x'' @ [DQ]))\<rparr>"

text \<open>A file whose name is \<open>"$5"\<close> and that has no version.\<close>

definition dollar_text :: string where
  "dollar_text =
     ''[package]'' @ [CHR 0x0A] @
     ''name = '' @ DQ # ''$5'' @ DQ # [CHR 0x0A] @
     ''description = '' @ DQ # ''d'' @ DQ # [CHR 0x0A] @
     ''homepage = '' @ DQ # ''h'' @ DQ # [CHR 0x0A]"

definition dollar_package :: "string \<rightharpoonup> string" where
  "dollar_package =
     Map.empty(''name'' \<mapsto> DQ # ''$5'' @ [DQ],
       ''description'' \<mapsto> DQ # ''d'' @ [DQ], ''homepage'' \<mapsto> DQ # ''h'' @ [DQ])"

definition dollar_parser :: parser where
  "dollar_parser =
     \<lparr>interpolation = ExtendedInterpolation,
      defaults = Map.empty,
      sections = Map.empty(''package'' \<mapsto> dollar_package)\<rparr>"

definition dollar_read_file :: "parser \<Rightarrow> string \<Rightarrow> error + parser" where
  "dollar_read_file parser content =
     (if content = dollar_text then
        Inr (parser\<lparr>sections := Map.empty(''package'' \<mapsto> dollar_package)\<rparr>)
      else Inl (ParsingError content))"

definition dollar_fs :: filesystem where
  "dollar_fs = \<lparr>files = Map.empty(''Cargo.toml'' \<mapsto> dollar_text), unclosed = {}, next_fd = 3\<rparr>"

text \<open>A file with a default section and nothing else.\<close>

definition bare_text :: string where
  "bare_text =
     ''[DEFAULT]'' @ [CHR 0x0A] @
     ''name = '' @ DQ # ''foo'' @ DQ # [CHR 0x0A]"

definition bare_parser :: parser where
  "bare_parser =
     \<lparr>interpolation = ExtendedInterpolation,
      defaults = Map.empty(''name'' \<mapsto> DQ # ''foo'' @ [DQ]),
      sections = Map.empty\<rparr>"

definition bare_read_file :: "parser \<Rightarrow> string \<Rightarrow> error + parser" where
  "bare_read_file parser content =
     (if content = bare_text then
        Inr (parser\<lparr>defaults := Map.empty(''name'' \<mapsto> DQ # ''foo'' @ [DQ])\<rparr>)
      else Inl (ParsingError content))"

definition bare_fs :: filesystem where
  "bare_fs = \<lparr>files = Map.empty(''Cargo.toml'' \<mapsto> bare_text), unclosed = {}, next_fd = 3\<rparr>"

definition sample_shell :: "string \<Rightarrow> int" where
  "sample_shell command = (if command = ''exit 1'' then 1 else 0)"

section \<open>Properties\<close>

subsection \<open>Environment variables\<close>






text \<open>
  Claim C7. Reading a variable that is not in the environment raises \<open>KeyError\<close>: no
  value is returned.
\<close>

theorem get_environment_unset_fails:
  "environ name = None \<Longrightarrow> get_environment_value environ name = Inl (KeyError name)"
  by (simp add: get_environment_value_def)

text \<open>With only \<open>HOME\<close> set, reading \<open>GITHUB_TOKEN\<close> raises.\<close>

theorem get_environment_unset_fails_witness:
  "(Map.empty(''HOME'' \<mapsto> ''/root'')) ''GITHUB_TOKEN'' = None
   \<and> get_environment_value (Map.empty(''HOME'' \<mapsto> ''/root'')) ''GITHUB_TOKEN''
       = Inl (KeyError ''GITHUB_TOKEN'')"
  using get_environment_unset_fails
    [of "Map.empty(''HOME'' \<mapsto> ''/root'')" "''GITHUB_TOKEN''"]
  by simp

text \<open>
  Claim C10. Setting a variable changes the entry of that name only: every other name
  keeps its presence and its value, whether the set succeeds or raises.
\<close>

theorem set_environment_frame:
  "other \<noteq> name \<Longrightarrow> fst (set_environment_value environ name v) other = environ other"
  by (cases "putenv name v") (simp_all add: set_environment_value_def)

text \<open>Setting \<open>CI\<close> leaves \<open>HOME\<close> as it was.\<close>

theorem set_environment_frame_witness:
  "''HOME'' \<noteq> ''CI''
   \<and> fst (set_environment_value (Map.empty(''HOME'' \<mapsto> ''/root'')) ''CI'' ''true'') ''HOME''
       = (Map.empty(''HOME'' \<mapsto> ''/root'')) ''HOME''"
  using set_environment_frame
    [of "''HOME''" "''CI''" "Map.empty(''HOME'' \<mapsto> ''/root'')" "''true''"]
  by simp

subsection \<open>Running a console command\<close>

text \<open>From Python 3 on the exit status decides: 0 returns, anything else raises.\<close>

lemma run_console_command_checked:
  "3 \<le> major \<Longrightarrow>
   run_console_command sh major command
   = (if sh command = 0 then Inr () else Inl (CalledProcessError (sh command) command))"
  by (simp add: run_console_command_def subprocess_run_check_def)

text \<open>
  Claim C5 says that a command ending with a status other than 0 makes
  \<open>run_console_command\<close> raise. Below Python 3 the source calls \<open>subprocess.call\<close> and
  drops the status it returns: with \<open>major = 2\<close> the command \<open>exit 1\<close>, which ends with
  status 1, returns normally.
\<close>

theorem run_console_command_unchecked_before_python3:
  "sample_shell ''exit 1'' = 1 \<and> run_console_command sample_shell 2 ''exit 1'' = Inr ()"
  by (simp add: sample_shell_def run_console_command_def)

subsection \<open>Stripping quotes\<close>

lemma dropWhile_replicate_append:
  "P q \<Longrightarrow> dropWhile P (replicate m q @ xs) = dropWhile P xs"
  by (induction m) simp_all

lemma dropWhile_all:
  "\<forall>x \<in> set xs. P x \<Longrightarrow> dropWhile P xs = []"
  by (induction xs) simp_all

lemma dropWhile_none:
  "\<forall>x \<in> set xs. \<not> P x \<Longrightarrow> dropWhile P xs = xs"
  by (cases xs) simp_all

lemma lstrip_boundary:
  "core = [] \<or> hd core \<noteq> q \<Longrightarrow> lstrip (replicate m q @ core) [q] = core"
  by (cases core) (simp_all add: lstrip_def dropWhile_replicate_append)

lemma rstrip_boundary:
  "core = [] \<or> last core \<noteq> q \<Longrightarrow> rstrip (core @ replicate n q) [q] = core"
proof -
  assume h: "core = [] \<or> last core \<noteq> q"
  have "dropWhile (\<lambda>c. c \<in> set [q]) (rev (core @ replicate n q))
        = dropWhile (\<lambda>c. c \<in> set [q]) (rev core)"
    by (simp add: dropWhile_replicate_append)
  also have "\<dots> = rev core"
    using h by (cases core rule: rev_cases) simp_all
  finally show ?thesis by (simp add: rstrip_def)
qed

text \<open>Any number of the character on either side of a core that neither begins nor
  ends with it: what remains is the core.\<close>

lemma strip_boundary:
  assumes "core = [] \<or> (hd core \<noteq> q \<and> last core \<noteq> q)"
  shows "strip (replicate m q @ core @ replicate n q) [q] = core"
proof (cases core)
  case Nil
  then show ?thesis
    using lstrip_boundary [of "[]" q "m + n"]
    by (simp add: strip_def rstrip_def replicate_add)
next
  case (Cons c cs)
  with assms have ends: "hd core \<noteq> q" "last core \<noteq> q"
    by simp_all
  from Cons ends(1)
  have "lstrip (replicate m q @ core @ replicate n q) [q] = core @ replicate n q"
    by (simp add: lstrip_def dropWhile_replicate_append)
  with ends(2) show ?thesis
    by (simp add: strip_def rstrip_boundary)
qed

text \<open>Every string is of that shape, so the lemma above covers every value.\<close>

lemma takeWhile_eq_replicate:
  "takeWhile (\<lambda>c. c = q) xs = replicate (length (takeWhile (\<lambda>c. c = q) xs)) q"
  by (induction xs) simp_all

lemma boundary_decomposition:
  "\<exists>m core n. v = replicate m q @ core @ replicate n q
      \<and> (core = [] \<or> (hd core \<noteq> q \<and> last core \<noteq> q))"
proof -
  define P where "P = (\<lambda>c. c = q)"
  define m where "m = length (takeWhile P v)"
  define r where "r = dropWhile P v"
  define n where "n = length (takeWhile P (rev r))"
  define core where "core = rev (dropWhile P (rev r))"
  have front: "v = replicate m q @ r"
    unfolding m_def r_def P_def
    using takeWhile_eq_replicate [of q v] takeWhile_dropWhile_id [of "\<lambda>c. c = q" v]
    by simp
  have "rev r = replicate n q @ rev core"
    unfolding n_def core_def P_def
    using takeWhile_eq_replicate [of q "rev r"] takeWhile_dropWhile_id [of "\<lambda>c. c = q" "rev r"]
    by simp
  then have "rev (rev r) = rev (replicate n q @ rev core)"
    by simp
  then have rear: "r = core @ replicate n q"
    by simp
  have hd_r: "r = [] \<or> hd r \<noteq> q"
    unfolding r_def P_def using hd_dropWhile [of "\<lambda>c. c = q" v] by auto
  have last_core: "core = [] \<or> last core \<noteq> q"
    unfolding core_def P_def
    using hd_dropWhile [of "\<lambda>c. c = q" "rev r"]
    by (cases "dropWhile (\<lambda>c. c = q) (rev r)") (auto simp: last_rev)
  have "core = [] \<or> (hd core \<noteq> q \<and> last core \<noteq> q)"
  proof (cases core)
    case Nil
    then show ?thesis by simp
  next
    case (Cons c cs)
    with rear hd_r have "hd core \<noteq> q" by auto
    with last_core Cons show ?thesis by simp
  qed
  with front rear show ?thesis by blast
qed

text \<open>Stripping a string wrapped in one pair is stripping what the pair wraps.\<close>

lemma strip_wrapped: "strip (q # w @ [q]) [q] = strip w [q]"
proof (cases "\<forall>x \<in> set w. x = q")
  case True
  then have inner: "lstrip w [q] = []"
    unfolding lstrip_def by (intro dropWhile_all) simp
  from True have outer: "lstrip (q # w @ [q]) [q] = []"
    unfolding lstrip_def by (intro dropWhile_all) simp
  show ?thesis
    by (simp only: strip_def inner outer)
next
  case False
  then have "dropWhile (\<lambda>c. c \<in> set [q]) (w @ [q]) = dropWhile (\<lambda>c. c \<in> set [q]) w @ [q]"
    by (simp add: dropWhile_append)
  then show ?thesis
    by (simp add: strip_def lstrip_def rstrip_def)
qed

lemma strip_absent: "set s \<inter> set chars = {} \<Longrightarrow> strip s chars = s"
proof -
  assume disj: "set s \<inter> set chars = {}"
  then have front: "\<forall>c \<in> set s. \<not> c \<in> set chars"
    by blast
  then have rear: "\<forall>c \<in> set (rev s). \<not> c \<in> set chars"
    by simp
  show ?thesis
    unfolding strip_def lstrip_def rstrip_def
    by (simp only: dropWhile_none [OF front] dropWhile_none [OF rear] rev_rev_ident)
qed

text \<open>The value that \<open>_get_value\<close> returns is the value the parser hands it, stripped.\<close>

lemma get_value_retrieved:
  "(if major = 3 then getitem p sec k else get p sec k) = Inr v
   \<Longrightarrow> get_value major p sec k = Inr (strip v [DQ])"
  by (simp add: get_value_def)

text \<open>
  Interpolation copies the text outside its references: what it returns begins with
  the accumulator it was given, and ends with the last character of the text when that
  character is none of the interpolation's own.
\<close>

lemma last_dropWhile:
  "dropWhile P xs \<noteq> [] \<Longrightarrow> last (dropWhile P xs) = last xs"
  by (induction xs) (auto split: if_splits)

lemma drop_keeps_last:
  "drop n xs \<noteq> [] \<Longrightarrow> last (drop n xs) = last xs"
  by (simp add: last_drop)

lemma escaped_rest_keeps_last:
  assumes "xs \<noteq> []" and "last xs = q" and "q \<noteq> m"
    and "take 1 (drop 1 xs) = [m]"
  shows "drop 2 xs \<noteq> [] \<and> last (drop 2 xs) = q"
proof -
  from assms(1,4) obtain a ys where xs: "xs = a # m # ys"
    by (cases xs; cases "tl xs") auto
  with assms(2,3) have "ys \<noteq> []"
    by auto
  with xs assms(2) show ?thesis
    by simp
qed

lemma KEYCRE_extended_keeps_last:
  assumes "KEYCRE_extended s = Some (name, r)" and "s \<noteq> []" and "last s = q"
    and "q \<noteq> CHR ''}''"
  shows "r \<noteq> [] \<and> last r = q"
proof -
  define closing where "closing = dropWhile (\<lambda>c. c \<noteq> CHR ''}'') (drop 2 s)"
  from assms(1) have ne: "closing \<noteq> []" and r: "r = drop 1 closing"
    by (auto simp: KEYCRE_extended_def Let_def closing_def split: if_splits)
  from ne have "last closing = last (drop 2 s)"
    unfolding closing_def by (rule last_dropWhile)
  moreover from ne have "drop 2 s \<noteq> []"
    unfolding closing_def by auto
  ultimately have last_closing: "last closing = q"
    using assms(3) by (simp add: drop_keeps_last)
  from ne have "hd closing = CHR ''}''"
    unfolding closing_def using hd_dropWhile [of "\<lambda>c. c \<noteq> CHR ''}''" "drop 2 s"] by auto
  with ne last_closing assms(4) r show ?thesis
    by (cases closing; cases "tl closing") auto
qed

lemma extended_interpolate_keeps_ends:
  assumes q: "q \<noteq> CHR ''$''" "q \<noteq> CHR ''}''"
  shows "\<forall>r. extended_interpolate_some p option accum rest sec mapping depth = Inr r
           \<longrightarrow> (\<exists>t. r = accum @ t)
               \<and> (rest \<noteq> [] \<and> last rest = q \<longrightarrow> (\<exists>t. r = accum @ t @ [q]))"
    and "\<forall>r. extended_interpolate_loop p option accum rest sec mapping depth = Inr r
           \<longrightarrow> (\<exists>t. r = accum @ t)
               \<and> (rest \<noteq> [] \<and> last rest = q \<longrightarrow> (\<exists>t. r = accum @ t @ [q]))"
proof (induction p option accum rest sec mapping depth
       and p option accum rest sec mapping depth
       rule: extended_interpolate_some_extended_interpolate_loop.induct)
  case (1 p option accum rest sec mapping depth)
  then show ?case
    by (cases "MAX_INTERPOLATION_DEPTH < depth")
      (simp_all del: extended_interpolate_loop.simps)
next
  case (2 p option accum rest sec mapping depth)
  define pre where "pre = takeWhile (\<lambda>c. c \<noteq> CHR ''$'') rest"
  define rest1 where "rest1 = dropWhile (\<lambda>c. c \<noteq> CHR ''$'') rest"
  note IH = "2.IH" [folded pre_def rest1_def]
  note eq = extended_interpolate_loop.simps [of p option accum rest sec mapping depth,
      folded pre_def rest1_def]
  note [simp del] = extended_interpolate_loop.simps extended_interpolate_some.simps
  show ?case
  proof (intro allI impI)
    fix r
    assume res: "extended_interpolate_loop p option accum rest sec mapping depth = Inr r"
    consider (empty) "rest = []"
      | (plain) "rest \<noteq> []" "CHR ''$'' \<notin> set rest"
      | (escaped) "rest \<noteq> []" "CHR ''$'' \<in> set rest" "take 1 (drop 1 rest1) = ''$''"
      | (reference) "rest \<noteq> []" "CHR ''$'' \<in> set rest" "take 1 (drop 1 rest1) \<noteq> ''$''"
          "take 1 (drop 1 rest1) = ''{''"
      | (other) "rest \<noteq> []" "CHR ''$'' \<in> set rest" "take 1 (drop 1 rest1) \<noteq> ''$''"
          "take 1 (drop 1 rest1) \<noteq> ''{''"
      by blast
    then show "(\<exists>t. r = accum @ t)
               \<and> (rest \<noteq> [] \<and> last rest = q \<longrightarrow> (\<exists>t. r = accum @ t @ [q]))"
    proof cases
      case empty
      with res eq show ?thesis by simp
    next
      case plain
      with res eq have "r = accum @ rest" by simp
      moreover from plain(1) have "rest = butlast rest @ [last rest]" by simp
      ultimately show ?thesis by metis
    next
      case escaped
      then have rest1_ne: "rest1 \<noteq> []"
        unfolding rest1_def by auto
      from escaped res eq
      have step: "extended_interpolate_loop p option (accum @ pre @ ''$'') (drop 2 rest1)
                    sec mapping depth = Inr r"
        by simp
      from IH(1) [OF escaped(1) _ escaped(3)] escaped(2) step
      have ih: "(\<exists>t. r = (accum @ pre @ ''$'') @ t)
                \<and> (drop 2 rest1 \<noteq> [] \<and> last (drop 2 rest1) = q
                     \<longrightarrow> (\<exists>t. r = (accum @ pre @ ''$'') @ t @ [q]))"
        by blast
      have "rest \<noteq> [] \<and> last rest = q \<longrightarrow> drop 2 rest1 \<noteq> [] \<and> last (drop 2 rest1) = q"
      proof
        assume "rest \<noteq> [] \<and> last rest = q"
        with rest1_ne have "last rest1 = q"
          unfolding rest1_def by (simp add: last_dropWhile)
        with rest1_ne escaped(3) q(1) show "drop 2 rest1 \<noteq> [] \<and> last (drop 2 rest1) = q"
          by (intro escaped_rest_keeps_last [where m = "CHR ''$''"]) simp_all
      qed
      with ih show ?thesis
        by (metis append.assoc)
    next
      case reference
      then have rest1_ne: "rest1 \<noteq> []"
        unfolding rest1_def by auto
      from reference res eq obtain name rest' sect opt v where
        m: "KEYCRE_extended rest1 = Some (name, rest')" and
        ref: "reference_extended p option sec mapping name = Inr (sect, opt, v)"
        by (simp split: option.splits sum.splits prod.splits)
      have tail: "rest \<noteq> [] \<and> last rest = q \<longrightarrow> rest' \<noteq> [] \<and> last rest' = q"
      proof
        assume "rest \<noteq> [] \<and> last rest = q"
        with rest1_ne have "last rest1 = q"
          unfolding rest1_def by (simp add: last_dropWhile)
        with m rest1_ne q(2) show "rest' \<noteq> [] \<and> last rest' = q"
          by (intro KEYCRE_extended_keeps_last [of rest1 name rest' q]) simp_all
      qed
      show ?thesis
      proof (cases "CHR ''$'' \<in> set v")
        case True
        with reference res eq m ref obtain sect_items accum' where
          items: "items_raw p sect = Inr sect_items" and
          nested: "extended_interpolate_some p opt (accum @ pre) v sect sect_items (depth + 1)
                   = Inr accum'" and
          step: "extended_interpolate_loop p option accum' rest' sec mapping depth = Inr r"
          by (simp split: sum.splits)
        from IH(2) [OF reference(1) _ reference(3,4) m refl ref refl refl True items]
          reference(2) nested
        have "\<exists>t. accum' = (accum @ pre) @ t"
          by blast
        moreover
        from IH(3) [OF reference(1) _ reference(3,4) m refl ref refl refl True items nested]
          reference(2) step
        have "(\<exists>t. r = accum' @ t)
              \<and> (rest' \<noteq> [] \<and> last rest' = q \<longrightarrow> (\<exists>t. r = accum' @ t @ [q]))"
          by blast
        ultimately show ?thesis
          using tail by (metis append.assoc)
      next
        case False
        with reference res eq m ref
        have step: "extended_interpolate_loop p option (accum @ pre @ v) rest'
                      sec mapping depth = Inr r"
          by simp
        from IH(4) [OF reference(1) _ reference(3,4) m refl ref refl refl False]
          reference(2) step
        have "(\<exists>t. r = (accum @ pre @ v) @ t)
              \<and> (rest' \<noteq> [] \<and> last rest' = q \<longrightarrow> (\<exists>t. r = (accum @ pre @ v) @ t @ [q]))"
          by blast
        then show ?thesis
          using tail by (metis append.assoc)
      qed
    next
      case other
      with res eq show ?thesis by simp
    qed
  qed
qed

lemma KEYCRE_basic_keeps_last:
  assumes "KEYCRE_basic s = Some (name, r)" and "s \<noteq> []" and "last s = q"
    and "q \<noteq> CHR ''s''"
  shows "r \<noteq> [] \<and> last r = q"
proof -
  define closing where "closing = dropWhile (\<lambda>c. c \<noteq> CHR '')'') (drop 2 s)"
  from assms(1) have two: "take 2 closing = '')s''" and r: "r = drop 2 closing"
    by (auto simp: KEYCRE_basic_def Let_def closing_def split: if_splits)
  from two have ne: "closing \<noteq> []"
    by auto
  from ne have "last closing = last (drop 2 s)"
    unfolding closing_def by (rule last_dropWhile)
  moreover from ne have "drop 2 s \<noteq> []"
    unfolding closing_def by auto
  ultimately have last_closing: "last closing = q"
    using assms(3) by (simp add: drop_keeps_last)
  from two obtain ys where "closing = CHR '')'' # CHR ''s'' # ys"
    by (cases closing; cases "tl closing") auto
  with last_closing assms(4) r show ?thesis
    by (cases ys) auto
qed

lemma basic_interpolate_keeps_ends:
  assumes q: "q \<noteq> CHR ''%''" "q \<noteq> CHR ''s''"
  shows "\<forall>r. basic_interpolate_some p option accum rest sec mapping depth = Inr r
           \<longrightarrow> (\<exists>t. r = accum @ t)
               \<and> (rest \<noteq> [] \<and> last rest = q \<longrightarrow> (\<exists>t. r = accum @ t @ [q]))"
    and "\<forall>r. basic_interpolate_loop p option accum rest sec mapping depth = Inr r
           \<longrightarrow> (\<exists>t. r = accum @ t)
               \<and> (rest \<noteq> [] \<and> last rest = q \<longrightarrow> (\<exists>t. r = accum @ t @ [q]))"
proof (induction p option accum rest sec mapping depth
       and p option accum rest sec mapping depth
       rule: basic_interpolate_some_basic_interpolate_loop.induct)
  case (1 p option accum rest sec mapping depth)
  then show ?case
    by (cases "MAX_INTERPOLATION_DEPTH < depth")
      (simp_all del: basic_interpolate_loop.simps)
next
  case (2 p option accum rest sec mapping depth)
  define pre where "pre = takeWhile (\<lambda>c. c \<noteq> CHR ''%'') rest"
  define rest1 where "rest1 = dropWhile (\<lambda>c. c \<noteq> CHR ''%'') rest"
  note IH = "2.IH" [folded pre_def rest1_def]
  note eq = basic_interpolate_loop.simps [of p option accum rest sec mapping depth,
      folded pre_def rest1_def]
  note [simp del] = basic_interpolate_loop.simps basic_interpolate_some.simps
  show ?case
  proof (intro allI impI)
    fix r
    assume res: "basic_interpolate_loop p option accum rest sec mapping depth = Inr r"
    consider (empty) "rest = []"
      | (plain) "rest \<noteq> []" "CHR ''%'' \<notin> set rest"
      | (escaped) "rest \<noteq> []" "CHR ''%'' \<in> set rest" "take 1 (drop 1 rest1) = ''%''"
      | (reference) "rest \<noteq> []" "CHR ''%'' \<in> set rest" "take 1 (drop 1 rest1) \<noteq> ''%''"
          "take 1 (drop 1 rest1) = ''(''"
      | (other) "rest \<noteq> []" "CHR ''%'' \<in> set rest" "take 1 (drop 1 rest1) \<noteq> ''%''"
          "take 1 (drop 1 rest1) \<noteq> ''(''"
      by blast
    then show "(\<exists>t. r = accum @ t)
               \<and> (rest \<noteq> [] \<and> last rest = q \<longrightarrow> (\<exists>t. r = accum @ t @ [q]))"
    proof cases
      case empty
      with res eq show ?thesis by simp
    next
      case plain
      with res eq have "r = accum @ rest" by simp
      moreover from plain(1) have "rest = butlast rest @ [last rest]" by simp
      ultimately show ?thesis by metis
    next
      case escaped
      then have rest1_ne: "rest1 \<noteq> []"
        unfolding rest1_def by auto
      from escaped res eq
      have step: "basic_interpolate_loop p option (accum @ pre @ ''%'') (drop 2 rest1)
                    sec mapping depth = Inr r"
        by simp
      from IH(1) [OF escaped(1) _ escaped(3)] escaped(2) step
      have ih: "(\<exists>t. r = (accum @ pre @ ''%'') @ t)
                \<and> (drop 2 rest1 \<noteq> [] \<and> last (drop 2 rest1) = q
                     \<longrightarrow> (\<exists>t. r = (accum @ pre @ ''%'') @ t @ [q]))"
        by blast
      have "rest \<noteq> [] \<and> last rest = q \<longrightarrow> drop 2 rest1 \<noteq> [] \<and> last (drop 2 rest1) = q"
      proof
        assume "rest \<noteq> [] \<and> last rest = q"
        with rest1_ne have "last rest1 = q"
          unfolding rest1_def by (simp add: last_dropWhile)
        with rest1_ne escaped(3) q(1) show "drop 2 rest1 \<noteq> [] \<and> last (drop 2 rest1) = q"
          by (intro escaped_rest_keeps_last [where m = "CHR ''%''"]) simp_all
      qed
      with ih show ?thesis
        by (metis append.assoc)
    next
      case reference
      then have rest1_ne: "rest1 \<noteq> []"
        unfolding rest1_def by auto
      from reference res eq obtain name rest' v where
        m: "KEYCRE_basic rest1 = Some (name, rest')" and
        ref: "mapping (optionxform name) = Some v"
        by (simp split: option.splits prod.splits)
      have tail: "rest \<noteq> [] \<and> last rest = q \<longrightarrow> rest' \<noteq> [] \<and> last rest' = q"
      proof
        assume "rest \<noteq> [] \<and> last rest = q"
        with rest1_ne have "last rest1 = q"
          unfolding rest1_def by (simp add: last_dropWhile)
        with m rest1_ne q(2) show "rest' \<noteq> [] \<and> last rest' = q"
          by (intro KEYCRE_basic_keeps_last [of rest1 name rest' q]) simp_all
      qed
      show ?thesis
      proof (cases "CHR ''%'' \<in> set v")
        case True
        with reference res eq m ref obtain accum' where
          nested: "basic_interpolate_some p option (accum @ pre) v sec mapping (depth + 1)
                   = Inr accum'" and
          step: "basic_interpolate_loop p option accum' rest' sec mapping depth = Inr r"
          by (simp split: sum.splits)
        from IH(2) [OF reference(1) _ reference(3,4) m refl ref True]
          reference(2) nested
        have "\<exists>t. accum' = (accum @ pre) @ t"
          by blast
        moreover
        from IH(3) [OF reference(1) _ reference(3,4) m refl ref True nested]
          reference(2) step
        have "(\<exists>t. r = accum' @ t)
              \<and> (rest' \<noteq> [] \<and> last rest' = q \<longrightarrow> (\<exists>t. r = accum' @ t @ [q]))"
          by blast
        ultimately show ?thesis
          using tail by (metis append.assoc)
      next
        case False
        with reference res eq m ref
        have step: "basic_interpolate_loop p option (accum @ pre @ v) rest'
                      sec mapping depth = Inr r"
          by simp
        from IH(4) [OF reference(1) _ reference(3,4) m refl ref False]
          reference(2) step
        have "(\<exists>t. r = (accum @ pre @ v) @ t)
              \<and> (rest' \<noteq> [] \<and> last rest' = q \<longrightarrow> (\<exists>t. r = (accum @ pre @ v) @ t @ [q]))"
          by blast
        then show ?thesis
          using tail by (metis append.assoc)
      qed
    next
      case other
      with res eq show ?thesis by simp
    qed
  qed
qed


lemma extended_loop_literal_head:
  assumes "q \<noteq> CHR ''$''"
  shows "extended_interpolate_loop p opt accum (q # rest) sec mapping depth
         = extended_interpolate_loop p opt (accum @ [q]) rest sec mapping depth"
proof -
  from assms
  have tw: "takeWhile (\<lambda>c. c \<noteq> CHR ''$'') (q # rest) = q # takeWhile (\<lambda>c. c \<noteq> CHR ''$'') rest"
    and dw: "dropWhile (\<lambda>c. c \<noteq> CHR ''$'') (q # rest) = dropWhile (\<lambda>c. c \<noteq> CHR ''$'') rest"
    by simp_all
  show ?thesis
    apply (subst (1 2) extended_interpolate_loop.simps)
    unfolding tw dw
    using assms
    apply (simp del: extended_interpolate_loop.simps extended_interpolate_some.simps
        split: option.splits sum.splits prod.splits)
    done
qed

lemma basic_loop_literal_head:
  assumes "q \<noteq> CHR ''%''"
  shows "basic_interpolate_loop p opt accum (q # rest) sec mapping depth
         = basic_interpolate_loop p opt (accum @ [q]) rest sec mapping depth"
proof -
  from assms
  have tw: "takeWhile (\<lambda>c. c \<noteq> CHR ''%'') (q # rest) = q # takeWhile (\<lambda>c. c \<noteq> CHR ''%'') rest"
    and dw: "dropWhile (\<lambda>c. c \<noteq> CHR ''%'') (q # rest) = dropWhile (\<lambda>c. c \<noteq> CHR ''%'') rest"
    by simp_all
  show ?thesis
    apply (subst (1 2) basic_interpolate_loop.simps)
    unfolding tw dw
    using assms
    apply (simp del: basic_interpolate_loop.simps basic_interpolate_some.simps
        split: option.splits sum.splits prod.splits)
    done
qed

lemma before_get_wrapped:
  assumes "before_get p sec opt (DQ # w @ [DQ]) d = Inr r"
  shows "\<exists>w'. r = DQ # w' @ [DQ]"
proof (cases "interpolation p")
  case ExtendedInterpolation
  with assms
  have "extended_interpolate_loop p opt [] (DQ # w @ [DQ]) sec d 1 = Inr r"
    by (simp add: before_get_def MAX_INTERPOLATION_DEPTH_def
        del: extended_interpolate_loop.simps)
  then have "extended_interpolate_loop p opt [DQ] (w @ [DQ]) sec d 1 = Inr r"
    by (simp add: extended_loop_literal_head del: extended_interpolate_loop.simps)
  with extended_interpolate_keeps_ends(2) [of DQ p opt "[DQ]" "w @ [DQ]" sec d 1]
  show ?thesis by auto
next
  case BasicInterpolation
  with assms
  have "basic_interpolate_loop p opt [] (DQ # w @ [DQ]) sec d 1 = Inr r"
    by (simp add: before_get_def MAX_INTERPOLATION_DEPTH_def
        del: basic_interpolate_loop.simps)
  then have "basic_interpolate_loop p opt [DQ] (w @ [DQ]) sec d 1 = Inr r"
    by (simp add: basic_loop_literal_head del: basic_interpolate_loop.simps)
  with basic_interpolate_keeps_ends(2) [of DQ p opt "[DQ]" "w @ [DQ]" sec d 1]
  show ?thesis by auto
qed

lemma before_get_unmarked:
  "(case interpolation p of
      ExtendedInterpolation \<Rightarrow> CHR ''$'' \<notin> set v
    | BasicInterpolation \<Rightarrow> CHR ''%'' \<notin> set v)
   \<Longrightarrow> before_get p sec opt v d = Inr v"
  by (cases "interpolation p")
    (simp_all add: before_get_def MAX_INTERPOLATION_DEPTH_def)

lemma retrieved_is_interpolated:
  assumes "get_raw p sec k = Inr v"
    and "(if major = 3 then getitem p sec k else get p sec k) = Inr r"
  shows "\<exists>d. before_get p sec (optionxform k) v d = Inr r"
proof -
  from assms(1) obtain d where d: "unify_values p sec = Inr d" "d (optionxform k) = Some v"
    by (auto simp: get_raw_def split: sum.splits option.splits)
  from assms(2) have "get p sec k = Inr r"
    by (auto simp: getitem_def split: if_splits)
  with d show ?thesis
    by (auto simp: get_def)
qed

text \<open>
  Claim C3, as amended. Let a lookup retrieve a value, and let \<open>v\<close> be the value stored
  for the key (the raw value, before interpolation). If \<open>v\<close> is wrapped in double
  quotes, so is the retrieved value, and both surrounding quotes are gone from what
  the lookup returns: it returns what stands between them, stripped. If \<open>v\<close> holds no
  interpolation marker (\<open>$\<close> for the extended interpolation, \<open>%\<close> for the basic one), the
  retrieved value is \<open>v\<close> itself: wrapped as \<open>"w"\<close> it is returned as \<open>w\<close> stripped, which
  is \<open>w\<close> when \<open>w\<close> neither begins nor ends with a quote, and with no quote in it, it is
  returned unchanged.
\<close>

theorem get_value_strips_surrounding_quotes:
  assumes "get_raw p sec k = Inr v"
    and "(if major = 3 then getitem p sec k else get p sec k) = Inr r"
  shows "(\<forall>w. v = DQ # w @ [DQ] \<longrightarrow>
            (\<exists>w'. r = DQ # w' @ [DQ] \<and> get_value major p sec k = Inr (strip w' [DQ])))
         \<and> ((case interpolation p of
                ExtendedInterpolation \<Rightarrow> CHR ''$'' \<notin> set v
              | BasicInterpolation \<Rightarrow> CHR ''%'' \<notin> set v) \<longrightarrow>
              r = v
              \<and> (\<forall>w. v = DQ # w @ [DQ] \<longrightarrow>
                    get_value major p sec k = Inr (strip w [DQ])
                    \<and> (w = [] \<or> (hd w \<noteq> DQ \<and> last w \<noteq> DQ)
                         \<longrightarrow> get_value major p sec k = Inr w))
              \<and> (DQ \<notin> set v \<longrightarrow> get_value major p sec k = Inr v))"
proof -
  from retrieved_is_interpolated [OF assms] obtain d where
    interpolated: "before_get p sec (optionxform k) v d = Inr r"
    by blast
  note returned = get_value_retrieved [OF assms(2)]
  have wrapped: "\<exists>w'. r = DQ # w' @ [DQ] \<and> get_value major p sec k = Inr (strip w' [DQ])"
    if "v = DQ # w @ [DQ]" for w
  proof -
    from that interpolated before_get_wrapped [of p sec "optionxform k" w d r]
    obtain w' where "r = DQ # w' @ [DQ]"
      by auto
    with returned show ?thesis
      by (auto simp: strip_wrapped)
  qed
  have unmarked: "r = v
      \<and> (\<forall>w. v = DQ # w @ [DQ] \<longrightarrow>
            get_value major p sec k = Inr (strip w [DQ])
            \<and> (w = [] \<or> (hd w \<noteq> DQ \<and> last w \<noteq> DQ) \<longrightarrow> get_value major p sec k = Inr w))
      \<and> (DQ \<notin> set v \<longrightarrow> get_value major p sec k = Inr v)"
    if free: "case interpolation p of
                ExtendedInterpolation \<Rightarrow> CHR ''$'' \<notin> set v
              | BasicInterpolation \<Rightarrow> CHR ''%'' \<notin> set v"
  proof -
    from before_get_unmarked [OF free, of sec "optionxform k" d] interpolated
    have same: "r = v"
      by simp
    have "get_value major p sec k = Inr (strip w [DQ])" if "v = DQ # w @ [DQ]" for w
      using that returned same by (simp add: strip_wrapped)
    moreover have "get_value major p sec k = Inr w"
      if "v = DQ # w @ [DQ]" and "w = [] \<or> (hd w \<noteq> DQ \<and> last w \<noteq> DQ)" for w
      using that returned same strip_boundary [of w DQ 0 0] by (simp add: strip_wrapped)
    moreover have "get_value major p sec k = Inr v" if "DQ \<notin> set v"
      using that returned same strip_absent [of v "[DQ]"] by simp
    ultimately show ?thesis
      using same by blast
  qed
  from wrapped unmarked show ?thesis
    by blast
qed

text \<open>The stored \<open>"foo"\<close> is returned as \<open>foo\<close>, the stored \<open>2018\<close> as it is, and the
  stored \<open>"${root}/x"\<close> as \<open>/srv/x\<close>.\<close>

theorem get_value_strips_surrounding_quotes_witness:
  "get_raw quoting_parser ''package'' ''name'' = Inr (DQ # ''foo'' @ [DQ])
   \<and> getitem quoting_parser ''package'' ''name'' = Inr (DQ # ''foo'' @ [DQ])
   \<and> get_value 3 quoting_parser ''package'' ''name'' = Inr ''foo''
   \<and> get_raw quoting_parser ''package'' ''edition'' = Inr ''2018''
   \<and> getitem quoting_parser ''package'' ''edition'' = Inr ''2018''
   \<and> get_value 3 quoting_parser ''package'' ''edition'' = Inr ''2018''
   \<and> get_raw interpolating_parser ''package'' ''home'' = Inr (DQ # ''${root}/x'' @ [DQ])
   \<and> getitem interpolating_parser ''package'' ''home'' = Inr (DQ # ''/srv/x'' @ [DQ])
   \<and> get_value 3 interpolating_parser ''package'' ''home'' = Inr ''/srv/x''"
proof -
  have name_stored: "get_raw quoting_parser ''package'' ''name'' = Inr (DQ # ''foo'' @ [DQ])"
    by code_simp
  have name: "(if (3::nat) = 3 then getitem quoting_parser ''package'' ''name''
               else get quoting_parser ''package'' ''name'') = Inr (DQ # ''foo'' @ [DQ])"
    by code_simp
  have edition_stored: "get_raw quoting_parser ''package'' ''edition'' = Inr ''2018''"
    by code_simp
  have edition: "(if (3::nat) = 3 then getitem quoting_parser ''package'' ''edition''
               else get quoting_parser ''package'' ''edition'') = Inr ''2018''"
    by code_simp
  have home_stored:
    "get_raw interpolating_parser ''package'' ''home'' = Inr (DQ # ''${root}/x'' @ [DQ])"
    by code_simp
  have home: "(if (3::nat) = 3 then getitem interpolating_parser ''package'' ''home''
               else get interpolating_parser ''package'' ''home'') = Inr (DQ # ''/srv/x'' @ [DQ])"
    by code_simp
  have extended: "interpolation quoting_parser = ExtendedInterpolation"
    by (simp add: quoting_parser_def)
  from get_value_strips_surrounding_quotes [OF name_stored name] extended
  have "\<forall>w. DQ # ''foo'' @ [DQ] = DQ # w @ [DQ] \<longrightarrow>
          get_value 3 quoting_parser ''package'' ''name'' = Inr (strip w [DQ])"
    by simp
  from this [rule_format, of "''foo''"]
  have first: "get_value 3 quoting_parser ''package'' ''name'' = Inr ''foo''"
    by (simp add: strip_def lstrip_def rstrip_def)
  from get_value_strips_surrounding_quotes [OF edition_stored edition] extended
  have second: "get_value 3 quoting_parser ''package'' ''edition'' = Inr ''2018''"
    by simp
  from get_value_strips_surrounding_quotes [OF home_stored home]
  have "\<forall>w. DQ # ''${root}/x'' @ [DQ] = DQ # w @ [DQ] \<longrightarrow>
          (\<exists>w'. DQ # ''/srv/x'' @ [DQ] = DQ # w' @ [DQ]
             \<and> get_value 3 interpolating_parser ''package'' ''home'' = Inr (strip w' [DQ]))"
    by blast
  from this [rule_format, of "''${root}/x''"] obtain w' where
    w': "DQ # ''/srv/x'' @ [DQ] = DQ # w' @ [DQ]"
        "get_value 3 interpolating_parser ''package'' ''home'' = Inr (strip w' [DQ])"
    by blast
  from w'(1) have "w' = ''/srv/x''"
    by (simp only: list.inject append1_eq_conv)
  with w'(2) have third: "get_value 3 interpolating_parser ''package'' ''home'' = Inr ''/srv/x''"
    by (simp add: strip_def lstrip_def rstrip_def)
  from name_stored name edition_stored edition home_stored home first second third
  show ?thesis by simp
qed

text \<open>
  Claim C3 as the specification states it fails: the stored \<open>a$$b\<close> holds no quote and
  is not returned unchanged, the interpolation turns it into \<open>a$b\<close>.
\<close>

theorem get_value_interpolates_counterexample:
  "get_raw interpolating_parser ''package'' ''path'' = Inr ''a$$b''
   \<and> DQ \<notin> set ''a$$b''
   \<and> get_value 3 interpolating_parser ''package'' ''path'' = Inr ''a$b''"
proof (intro conjI)
  show "get_raw interpolating_parser ''package'' ''path'' = Inr ''a$$b''"
    by code_simp
  show "DQ \<notin> set ''a$$b''"
    by simp
  show "get_value 3 interpolating_parser ''package'' ''path'' = Inr ''a$b''"
    by code_simp
qed

text \<open>
  Claim C9. The lookup removes every leading and every trailing double quote of the
  retrieved value, not one pair only: whatever the numbers \<open>m\<close> and \<open>n\<close> of quotes before
  and after a core that neither begins nor ends with a quote, the core is returned,
  with the quotes inside it.
\<close>

theorem get_value_strips_all_boundary_quotes:
  assumes "(if major = 3 then getitem p sec k else get p sec k)
           = Inr (replicate m DQ @ core @ replicate n DQ)"
    and "core = [] \<or> (hd core \<noteq> DQ \<and> last core \<noteq> DQ)"
  shows "get_value major p sec k = Inr core"
  using get_value_retrieved [OF assms(1)] strip_boundary [OF assms(2)]
  by simp

text \<open>A quote on one side only, two quotes on each side, and a quote inside.\<close>

theorem get_value_strips_all_boundary_quotes_witness:
  "getitem quoting_parser ''package'' ''open'' = Inr (replicate 1 DQ @ ''foo'' @ replicate 0 DQ)
   \<and> get_value 3 quoting_parser ''package'' ''open'' = Inr ''foo''
   \<and> getitem quoting_parser ''package'' ''twice'' = Inr (replicate 2 DQ @ ''foo'' @ replicate 2 DQ)
   \<and> get_value 3 quoting_parser ''package'' ''twice'' = Inr ''foo''
   \<and> getitem quoting_parser ''package'' ''inner''
       = Inr (replicate 1 DQ @ (''a'' @ DQ # ''b'') @ replicate 1 DQ)
   \<and> get_value 3 quoting_parser ''package'' ''inner'' = Inr (''a'' @ DQ # ''b'')"
proof -
  have one_sided: "(if (3::nat) = 3 then getitem quoting_parser ''package'' ''open''
               else get quoting_parser ''package'' ''open'')
        = Inr (replicate 1 DQ @ ''foo'' @ replicate 0 DQ)"
    by code_simp
  have twice: "(if (3::nat) = 3 then getitem quoting_parser ''package'' ''twice''
               else get quoting_parser ''package'' ''twice'')
        = Inr (replicate 2 DQ @ ''foo'' @ replicate 2 DQ)"
    by code_simp
  have inner: "(if (3::nat) = 3 then getitem quoting_parser ''package'' ''inner''
               else get quoting_parser ''package'' ''inner'')
        = Inr (replicate 1 DQ @ (''a'' @ DQ # ''b'') @ replicate 1 DQ)"
    by code_simp
  have foo: "''foo'' = [] \<or> (hd ''foo'' \<noteq> DQ \<and> last ''foo'' \<noteq> DQ)"
    by simp
  have ab: "''a'' @ DQ # ''b'' = []
            \<or> (hd (''a'' @ DQ # ''b'') \<noteq> DQ \<and> last (''a'' @ DQ # ''b'') \<noteq> DQ)"
    by simp
  from get_value_strips_all_boundary_quotes [OF one_sided foo]
       get_value_strips_all_boundary_quotes [OF twice foo]
       get_value_strips_all_boundary_quotes [OF inner ab]
       one_sided twice inner
  show ?thesis by simp
qed

subsection \<open>Looking a value up\<close>

text \<open>The four keys of the package are lower-case already.\<close>

lemma optionxform_keys [simp]:
  "optionxform ''name'' = ''name''" "optionxform ''version'' = ''version''"
  "optionxform ''description'' = ''description''" "optionxform ''homepage'' = ''homepage''"
  by (simp_all add: optionxform_def lower_char_def)

text \<open>A value without \<open>$\<close> and without \<open>%\<close> passes either interpolation unchanged.\<close>

lemma before_get_plain:
  "CHR ''$'' \<notin> set v \<Longrightarrow> CHR ''%'' \<notin> set v \<Longrightarrow> before_get p sec opt v d = Inr v"
  by (cases "interpolation p")
    (simp_all add: before_get_def MAX_INTERPOLATION_DEPTH_def)

lemma get_plain:
  assumes "sections p sec = Some sd" and "(defaults p ++ sd) (optionxform k) = Some v"
    and "CHR ''$'' \<notin> set v" and "CHR ''%'' \<notin> set v"
  shows "get p sec k = Inr v"
  using assms by (simp add: get_def unify_values_def before_get_plain)

lemma getitem_plain:
  assumes "sections p sec = Some sd" and "(defaults p ++ sd) (optionxform k) = Some v"
    and "sec \<noteq> []" and "sec \<noteq> default_section"
    and "CHR ''$'' \<notin> set v" and "CHR ''%'' \<notin> set v"
  shows "getitem p sec k = Inr v"
proof -
  from assms(1,2) have "has_option p sec k"
    using assms(3,4) by (auto simp: has_option_def map_add_def split: option.splits)
  moreover from assms(1) have "has_section p sec"
    by (simp add: has_section_def)
  ultimately show ?thesis
    using get_plain [OF assms(1,2,5,6)] by (simp add: getitem_def)
qed

lemma get_value_plain:
  assumes "sections p sec = Some sd" and "(defaults p ++ sd) (optionxform k) = Some v"
    and "sec \<noteq> []" and "sec \<noteq> default_section"
    and "CHR ''$'' \<notin> set v" and "CHR ''%'' \<notin> set v"
  shows "get_value major p sec k = Inr (strip v [DQ])"
  using getitem_plain [OF assms] get_plain [OF assms(1,2,5,6)]
  by (simp add: get_value_def)

lemma get_absent:
  assumes "case sections p sec of
             None \<Rightarrow> sec \<noteq> default_section \<or> defaults p (optionxform k) = None
           | Some sd \<Rightarrow> sd (optionxform k) = None \<and> defaults p (optionxform k) = None"
  shows "get p sec k
         = Inl (if sec \<noteq> default_section \<and> sections p sec = None then NoSectionError sec
                else NoOptionError (optionxform k) sec)"
  using assms
  by (cases "sections p sec") (auto simp: get_def unify_values_def map_add_def)

lemma getitem_absent:
  assumes "case sections p sec of
             None \<Rightarrow> sec \<noteq> default_section \<or> defaults p (optionxform k) = None
           | Some sd \<Rightarrow> sd (optionxform k) = None \<and> defaults p (optionxform k) = None"
  shows "getitem p sec k
         = Inl (if sec \<noteq> default_section \<and> sections p sec = None then KeyError sec
                else KeyError k)"
  using assms
  by (cases "sections p sec") (auto simp: getitem_def has_section_def has_option_def)

lemma get_value_absent:
  assumes "case sections p sec of
             None \<Rightarrow> sec \<noteq> default_section \<or> defaults p (optionxform k) = None
           | Some sd \<Rightarrow> sd (optionxform k) = None \<and> defaults p (optionxform k) = None"
  shows "get_value major p sec k
         = Inl (if major = 3
                then (if sec \<noteq> default_section \<and> sections p sec = None then KeyError sec
                      else KeyError k)
                else (if sec \<noteq> default_section \<and> sections p sec = None
                      then NoSectionError sec
                      else NoOptionError (optionxform k) sec))"
  using get_absent [OF assms] getitem_absent [OF assms]
  by (simp add: get_value_def)

text \<open>
  Claim C2, as amended. The lookup raises a lookup error and returns no value, so no
  empty string either, whenever the section asked for does not exist, or the key
  (lower-cased, as the parser stores option names) is in neither that section nor the
  default section. Under Python 3 the error is the \<open>KeyError\<close> of the missing section,
  or else of the key; otherwise it is \<open>NoSectionError\<close> for the missing section, or else
  \<open>NoOptionError\<close> for the key. The default section is the one fallback there is.
\<close>

theorem lookup_absent_fails:
  assumes "case sections p sec of
             None \<Rightarrow> sec \<noteq> default_section \<or> defaults p (optionxform parameter) = None
           | Some sectiondict \<Rightarrow>
               sectiondict (optionxform parameter) = None
               \<and> defaults p (optionxform parameter) = None"
  shows "\<exists>e. get_value major p sec parameter = Inl e \<and> lookup_error e
            \<and> e = (if major = 3
                    then (if sec \<noteq> default_section \<and> sections p sec = None
                          then KeyError sec else KeyError parameter)
                    else (if sec \<noteq> default_section \<and> sections p sec = None
                          then NoSectionError sec
                          else NoOptionError (optionxform parameter) sec))"
  using get_value_absent [OF assms, of major]
  by (simp add: lookup_error_def)

text \<open>A file whose \<open>[package]\<close> has a name and a version only, and no default section:
  the lookup of \<open>description\<close> raises the error of the key. A file without a section
  \<open>dependencies\<close>: the lookup of \<open>name\<close> there raises the error of the section, although
  \<open>[DEFAULT]\<close> defines \<open>name\<close>.\<close>

theorem lookup_absent_fails_witness:
  "sections incomplete_parser ''package'' = Some incomplete_package
   \<and> incomplete_package (optionxform ''description'') = None
   \<and> defaults incomplete_parser (optionxform ''description'') = None
   \<and> get_value 3 incomplete_parser ''package'' ''description'' = Inl (KeyError ''description'')
   \<and> get_value 2 incomplete_parser ''package'' ''description''
       = Inl (NoOptionError ''description'' ''package'')
   \<and> sections defaulted_parser ''dependencies'' = None
   \<and> defaults defaulted_parser ''name'' = Some (DQ # ''foo'' @ [DQ])
   \<and> get_value 3 defaulted_parser ''dependencies'' ''name'' = Inl (KeyError ''dependencies'')
   \<and> get_value 2 defaulted_parser ''dependencies'' ''name''
       = Inl (NoSectionError ''dependencies'')"
proof -
  have package: "sections incomplete_parser ''package'' = Some incomplete_package"
    by (simp add: incomplete_parser_def)
  have absent: "incomplete_package (optionxform ''description'') = None"
    by (simp add: incomplete_package_def)
  have no_default: "defaults incomplete_parser (optionxform ''description'') = None"
    by (simp add: incomplete_parser_def)
  have no_section: "sections defaulted_parser ''dependencies'' = None"
    by (simp add: defaulted_parser_def)
  have in_default: "defaults defaulted_parser ''name'' = Some (DQ # ''foo'' @ [DQ])"
    by (simp add: defaulted_parser_def)
  have other: "''dependencies'' \<noteq> default_section" "''package'' \<noteq> default_section"
    by (simp_all add: default_section_def)
  from lookup_absent_fails [where p = incomplete_parser and sec = "''package''"
      and parameter = "''description''" and major = 3]
    package absent no_default other
  have key3: "get_value 3 incomplete_parser ''package'' ''description''
              = Inl (KeyError ''description'')"
    by simp
  from lookup_absent_fails [where p = incomplete_parser and sec = "''package''"
      and parameter = "''description''" and major = 2]
    package absent no_default other
  have key2: "get_value 2 incomplete_parser ''package'' ''description''
              = Inl (NoOptionError ''description'' ''package'')"
    by simp
  from lookup_absent_fails [where p = defaulted_parser and sec = "''dependencies''"
      and parameter = "''name''" and major = 3]
    no_section other
  have section3: "get_value 3 defaulted_parser ''dependencies'' ''name''
                  = Inl (KeyError ''dependencies'')"
    by simp
  from lookup_absent_fails [where p = defaulted_parser and sec = "''dependencies''"
      and parameter = "''name''" and major = 2]
    no_section other
  have section2: "get_value 2 defaulted_parser ''dependencies'' ''name''
                  = Inl (NoSectionError ''dependencies'')"
    by simp
  from package absent no_default no_section in_default key3 key2 section3 section2
  show ?thesis by simp
qed

text \<open>
  Claim C2 as the specification states it fails: with \<open>name\<close> in \<open>[DEFAULT]\<close> and not
  in \<open>[package]\<close>, the lookup of \<open>name\<close> in \<open>package\<close> returns the default's value.
\<close>

theorem lookup_default_fallback_counterexample:
  "sections defaulted_parser ''package'' = Some defaulted_package
   \<and> defaulted_package ''name'' = None
   \<and> get_value 3 defaulted_parser ''package'' ''name'' = Inr ''foo''"
proof (intro conjI)
  show "sections defaulted_parser ''package'' = Some defaulted_package"
    by (simp add: defaulted_parser_def)
  show "defaulted_package ''name'' = None"
    by (simp add: defaulted_package_def)
  show "get_value 3 defaulted_parser ''package'' ''name'' = Inr ''foo''"
    by code_simp
qed

subsection \<open>The four values of the package\<close>

lemma with_read_configuration_parsed:
  assumes "files fs configuration_file = Some content"
    and "read_file (get_config_parser major) content = Inr p"
  shows "snd (with_read_configuration read_file major fs configuration_file body) = body p"
  using assms
  by (simp add: with_read_configuration_def read_configuration_def open_file_def)

lemma get_current_configuration_values_parsed:
  assumes "files fs configuration_file = Some content"
    and "read_file (get_config_parser major) content = Inr p"
  shows "snd (get_current_configuration_values read_file major fs configuration_file)
     = (case get_value major p ''package'' ''name'' of
          Inl e \<Rightarrow> Inl e
        | Inr name \<Rightarrow>
        (case get_value major p ''package'' ''version'' of
          Inl e \<Rightarrow> Inl e
        | Inr version \<Rightarrow>
        (case get_value major p ''package'' ''description'' of
          Inl e \<Rightarrow> Inl e
        | Inr description \<Rightarrow>
        (case get_value major p ''package'' ''homepage'' of
          Inl e \<Rightarrow> Inl e
        | Inr homepage \<Rightarrow>
            Inr (Map.empty(''name'' \<mapsto> name, ''version'' \<mapsto> version,
                   ''description'' \<mapsto> description, ''homepage'' \<mapsto> homepage))))))"
  unfolding get_current_configuration_values_def
  by (simp only: with_read_configuration_parsed
        [of fs configuration_file content read_file major p, OF assms(1,2)])

lemma sample_read_file_incomplete:
  "sample_read_file (get_config_parser 3) incomplete_text = Inr incomplete_parser"
  by (simp add: sample_read_file_def get_config_parser_def ConfigParser_def
      incomplete_parser_def incomplete_text_def sample_text_def defaulted_text_def)

lemma sample_read_file_defaulted:
  "sample_read_file (get_config_parser 3) defaulted_text = Inr defaulted_parser"
  by (simp add: sample_read_file_def get_config_parser_def ConfigParser_def
      defaulted_parser_def defaulted_text_def sample_text_def)

text \<open>
  Claim C1. For every configuration file that the parser reads and whose \<open>[package]\<close>
  section defines \<open>name = "foo"\<close>, \<open>version = "1.0"\<close>, \<open>description = "d"\<close> and
  \<open>homepage = "h"\<close>, \<open>get_current_configuration_values\<close> returns exactly the mapping of
  \<open>name\<close> to \<open>foo\<close>, \<open>version\<close> to \<open>1.0\<close>, \<open>description\<close> to \<open>d\<close> and \<open>homepage\<close> to \<open>h\<close>.
\<close>

theorem get_current_configuration_values_package:
  assumes "files fs configuration_file = Some content"
    and "read_file (get_config_parser major) content = Inr p"
    and "sections p ''package'' = Some package"
    and "package ''name'' = Some (DQ # ''foo'' @ [DQ])"
    and "package ''version'' = Some (DQ # ''1.0'' @ [DQ])"
    and "package ''description'' = Some (DQ # ''d'' @ [DQ])"
    and "package ''homepage'' = Some (DQ # ''h'' @ [DQ])"
  shows "snd (get_current_configuration_values read_file major fs configuration_file)
         = Inr (Map.empty(''name'' \<mapsto> ''foo'', ''version'' \<mapsto> ''1.0'',
                  ''description'' \<mapsto> ''d'', ''homepage'' \<mapsto> ''h''))"
proof -
  have sec: "''package'' \<noteq> []" "''package'' \<noteq> default_section"
    by (simp_all add: default_section_def)
  have name: "get_value major p ''package'' ''name'' = Inr ''foo''"
    using get_value_plain [OF assms(3) _ sec, of "''name''" "DQ # ''foo'' @ [DQ]" major]
      assms(4)
    by (simp add: strip_def lstrip_def rstrip_def)
  have version: "get_value major p ''package'' ''version'' = Inr ''1.0''"
    using get_value_plain [OF assms(3) _ sec, of "''version''" "DQ # ''1.0'' @ [DQ]" major]
      assms(5)
    by (simp add: strip_def lstrip_def rstrip_def)
  have description: "get_value major p ''package'' ''description'' = Inr ''d''"
    using get_value_plain [OF assms(3) _ sec, of "''description''" "DQ # ''d'' @ [DQ]" major]
      assms(6)
    by (simp add: strip_def lstrip_def rstrip_def)
  have homepage: "get_value major p ''package'' ''homepage'' = Inr ''h''"
    using get_value_plain [OF assms(3) _ sec, of "''homepage''" "DQ # ''h'' @ [DQ]" major]
      assms(7)
    by (simp add: strip_def lstrip_def rstrip_def)
  show ?thesis
    by (simp only: get_current_configuration_values_parsed
          [of fs configuration_file content read_file major p, OF assms(1,2)]
          name version description homepage sum.case)
qed

text \<open>The sample \<open>Cargo.toml\<close>, read under Python 3.\<close>

theorem get_current_configuration_values_package_witness:
  "files sample_fs ''Cargo.toml'' = Some sample_text
   \<and> sample_read_file (get_config_parser 3) sample_text
       = Inr (ConfigParser ExtendedInterpolation
                \<lparr>sections := Map.empty(''package'' \<mapsto> sample_package)\<rparr>)
   \<and> sample_package ''name'' = Some (DQ # ''foo'' @ [DQ])
   \<and> sample_package ''version'' = Some (DQ # ''1.0'' @ [DQ])
   \<and> sample_package ''description'' = Some (DQ # ''d'' @ [DQ])
   \<and> sample_package ''homepage'' = Some (DQ # ''h'' @ [DQ])
   \<and> snd (get_current_configuration_values sample_read_file 3 sample_fs ''Cargo.toml'')
       = Inr (Map.empty(''name'' \<mapsto> ''foo'', ''version'' \<mapsto> ''1.0'',
                ''description'' \<mapsto> ''d'', ''homepage'' \<mapsto> ''h''))"
proof -
  have present: "files sample_fs ''Cargo.toml'' = Some sample_text"
    by (simp add: sample_fs_def)
  have parsed: "sample_read_file (get_config_parser 3) sample_text
       = Inr (ConfigParser ExtendedInterpolation
                \<lparr>sections := Map.empty(''package'' \<mapsto> sample_package)\<rparr>)"
    by (simp add: sample_read_file_def get_config_parser_def)
  have package: "sections (ConfigParser ExtendedInterpolation
                \<lparr>sections := Map.empty(''package'' \<mapsto> sample_package)\<rparr>) ''package''
       = Some sample_package"
    by simp
  have options:
    "sample_package ''name'' = Some (DQ # ''foo'' @ [DQ])"
    "sample_package ''version'' = Some (DQ # ''1.0'' @ [DQ])"
    "sample_package ''description'' = Some (DQ # ''d'' @ [DQ])"
    "sample_package ''homepage'' = Some (DQ # ''h'' @ [DQ])"
    by (simp_all add: sample_package_def)
  from get_current_configuration_values_package
    [of sample_fs "''Cargo.toml''" sample_text sample_read_file 3 _ sample_package,
     OF present parsed package options]
    present parsed options
  show ?thesis by blast
qed

lemma get_value_key_absent:
  assumes "k \<in> set [''name'', ''version'', ''description'', ''homepage'']"
    and "case sections p ''package'' of
           None \<Rightarrow> True
         | Some package \<Rightarrow> package k = None \<and> defaults p k = None"
  shows "get_value major p ''package'' k
         = Inl (if major = 3
                then (if sections p ''package'' = None then KeyError ''package''
                      else KeyError k)
                else (if sections p ''package'' = None then NoSectionError ''package''
                      else NoOptionError k ''package''))"
proof -
  from assms(1) have lower: "optionxform k = k"
    by auto
  have other: "''package'' \<noteq> default_section"
    by (simp add: default_section_def)
  from assms(2) lower other
  have "case sections p ''package'' of
          None \<Rightarrow> ''package'' \<noteq> default_section \<or> defaults p (optionxform k) = None
        | Some sd \<Rightarrow> sd (optionxform k) = None \<and> defaults p (optionxform k) = None"
    by (cases "sections p ''package''") simp_all
  from get_value_absent [OF this, of major] lower other show ?thesis
    by simp
qed

text \<open>
  Claim C8, as amended. For every configuration file that the parser reads and in which
  one of the four keys is missing, because there is no \<open>[package]\<close> section or because
  the key is in neither \<open>[package]\<close> nor \<open>[DEFAULT]\<close>,
  \<open>get_current_configuration_values\<close> raises and hands no mapping, partial or whole, to
  the caller. Without a \<open>[package]\<close> section the error is that of the section
  (\<open>KeyError\<close> of \<open>package\<close> under Python 3, \<open>NoSectionError\<close> otherwise). With the
  section, when the lookups of the keys before the missing one, in the order \<open>name\<close>,
  \<open>version\<close>, \<open>description\<close>, \<open>homepage\<close>, all return a value, the error is that of the
  missing key (\<open>KeyError\<close> of the key under Python 3, \<open>NoOptionError\<close> otherwise).
\<close>

theorem get_current_configuration_values_missing_key:
  assumes "files fs configuration_file = Some content"
    and "read_file (get_config_parser major) content = Inr p"
    and "k \<in> set [''name'', ''version'', ''description'', ''homepage'']"
    and "case sections p ''package'' of
           None \<Rightarrow> True
         | Some package \<Rightarrow> package k = None \<and> defaults p k = None"
  shows "\<exists>e. snd (get_current_configuration_values read_file major fs configuration_file) = Inl e
            \<and> (sections p ''package'' = None
                 \<longrightarrow> e = (if major = 3 then KeyError ''package''
                          else NoSectionError ''package''))
            \<and> (sections p ''package'' \<noteq> None
                 \<and> (\<forall>k' \<in> set (takeWhile (\<lambda>x. x \<noteq> k)
                                  [''name'', ''version'', ''description'', ''homepage'']).
                      \<exists>v. get_value major p ''package'' k' = Inr v)
                 \<longrightarrow> e = (if major = 3 then KeyError k else NoOptionError k ''package''))"
proof -
  note result = get_current_configuration_values_parsed
    [of fs configuration_file content read_file major p, OF assms(1,2)]
  show ?thesis
  proof (cases "sections p ''package''")
    case None
    then have "get_value major p ''package'' ''name''
               = Inl (if major = 3 then KeyError ''package'' else NoSectionError ''package'')"
      using get_value_key_absent [of "''name''" p major] by simp
    with None result show ?thesis
      by simp
  next
    case (Some package)
    with get_value_key_absent [OF assms(3,4), of major]
    have failed: "get_value major p ''package'' k
                  = Inl (if major = 3 then KeyError k else NoOptionError k ''package'')"
      by simp
    from assms(3) consider "k = ''name''" | "k = ''version''" | "k = ''description''"
      | "k = ''homepage''"
      by auto
    then show ?thesis
    proof cases
      case 1
      with failed result Some show ?thesis
        by simp
    next
      case 2
      with failed result Some show ?thesis
        by (cases "get_value major p ''package'' ''name''") auto
    next
      case 3
      with failed result Some show ?thesis
        by (cases "get_value major p ''package'' ''name''";
            cases "get_value major p ''package'' ''version''") auto
    next
      case 4
      with failed result Some show ?thesis
        by (cases "get_value major p ''package'' ''name''";
            cases "get_value major p ''package'' ''version''";
            cases "get_value major p ''package'' ''description''") auto
    qed
  qed
qed

text \<open>A file with a name and a version only: the first two lookups return, the third
  raises the \<open>KeyError\<close> of \<open>description\<close>, and that is what the caller gets. A file
  without \<open>[package]\<close>: the caller gets the \<open>KeyError\<close> of \<open>package\<close>, although
  \<open>[DEFAULT]\<close> defines \<open>name\<close>.\<close>

theorem get_current_configuration_values_missing_key_witness:
  "files sample_fs ''incomplete.toml'' = Some incomplete_text
   \<and> sample_read_file (get_config_parser 3) incomplete_text = Inr incomplete_parser
   \<and> sections incomplete_parser ''package'' = Some incomplete_package
   \<and> incomplete_package ''description'' = None
   \<and> defaults incomplete_parser ''description'' = None
   \<and> get_value 3 incomplete_parser ''package'' ''name'' = Inr ''foo''
   \<and> get_value 3 incomplete_parser ''package'' ''version'' = Inr ''1.0''
   \<and> snd (get_current_configuration_values sample_read_file 3 sample_fs ''incomplete.toml'')
       = Inl (KeyError ''description'')
   \<and> files bare_fs ''Cargo.toml'' = Some bare_text
   \<and> bare_read_file (get_config_parser 3) bare_text = Inr bare_parser
   \<and> sections bare_parser ''package'' = None
   \<and> defaults bare_parser ''name'' = Some (DQ # ''foo'' @ [DQ])
   \<and> snd (get_current_configuration_values bare_read_file 3 bare_fs ''Cargo.toml'')
       = Inl (KeyError ''package'')"
proof -
  have bare_present: "files bare_fs ''Cargo.toml'' = Some bare_text"
    by (simp add: bare_fs_def)
  have bare_parsed: "bare_read_file (get_config_parser 3) bare_text = Inr bare_parser"
    by (simp add: bare_read_file_def get_config_parser_def ConfigParser_def bare_parser_def)
  have bare_section: "sections bare_parser ''package'' = None"
    by (simp add: bare_parser_def)
  have bare_default: "defaults bare_parser ''name'' = Some (DQ # ''foo'' @ [DQ])"
    by (simp add: bare_parser_def)
  from get_current_configuration_values_missing_key
    [where fs = bare_fs and configuration_file = "''Cargo.toml''"
       and content = bare_text and read_file = bare_read_file and major = 3
       and p = bare_parser and k = "''name''"]
    bare_present bare_parsed bare_section
  have bare_result:
    "snd (get_current_configuration_values bare_read_file 3 bare_fs ''Cargo.toml'')
       = Inl (KeyError ''package'')"
    by auto
  have present: "files sample_fs ''incomplete.toml'' = Some incomplete_text"
    by (simp add: sample_fs_def)
  have package: "sections incomplete_parser ''package'' = Some incomplete_package"
    by (simp add: incomplete_parser_def)
  have absent: "incomplete_package ''description'' = None"
    by (simp add: incomplete_package_def)
  have no_default: "defaults incomplete_parser ''description'' = None"
    by (simp add: incomplete_parser_def)
  have name: "get_value 3 incomplete_parser ''package'' ''name'' = Inr ''foo''"
    by code_simp
  have version: "get_value 3 incomplete_parser ''package'' ''version'' = Inr ''1.0''"
    by code_simp
  have description:
    "get_value 3 incomplete_parser ''package'' ''description'' = Inl (KeyError ''description'')"
    by code_simp
  from get_current_configuration_values_missing_key
    [where fs = sample_fs and configuration_file = "''incomplete.toml''"
       and content = incomplete_text and read_file = sample_read_file and major = 3
       and p = incomplete_parser and k = "''description''"]
    present sample_read_file_incomplete package absent no_default name version
  have "snd (get_current_configuration_values sample_read_file 3 sample_fs ''incomplete.toml'')
       = Inl (KeyError ''description'')"
    by auto
  with present sample_read_file_incomplete package absent no_default name version
    bare_present bare_parsed bare_section bare_default bare_result
  show ?thesis by simp
qed

text \<open>
  Claim C8 as the specification states it fails, in two ways. In the first file \<open>name\<close>
  is missing from \<open>[package]\<close>, but \<open>[DEFAULT]\<close> defines it, and the call returns the
  whole mapping. In the second file \<open>version\<close> is the one missing key, but the name is
  \<open>"$5"\<close>: the call raises on the name, with an interpolation error, and never reaches
  the missing key, whose lookup would raise \<open>KeyError\<close>.
\<close>

theorem get_current_configuration_values_default_counterexample:
  "files sample_fs ''defaulted.toml'' = Some defaulted_text
   \<and> sample_read_file (get_config_parser 3) defaulted_text = Inr defaulted_parser
   \<and> sections defaulted_parser ''package'' = Some defaulted_package
   \<and> defaulted_package ''name'' = None
   \<and> snd (get_current_configuration_values sample_read_file 3 sample_fs ''defaulted.toml'')
       = Inr (Map.empty(''name'' \<mapsto> ''foo'', ''version'' \<mapsto> ''1.0'',
                ''description'' \<mapsto> ''d'', ''homepage'' \<mapsto> ''h''))
   \<and> files dollar_fs ''Cargo.toml'' = Some dollar_text
   \<and> dollar_read_file (get_config_parser 3) dollar_text = Inr dollar_parser
   \<and> sections dollar_parser ''package'' = Some dollar_package
   \<and> dollar_package ''version'' = None
   \<and> defaults dollar_parser ''version'' = None
   \<and> get_value 3 dollar_parser ''package'' ''version'' = Inl (KeyError ''version'')
   \<and> snd (get_current_configuration_values dollar_read_file 3 dollar_fs ''Cargo.toml'')
       = Inl (InterpolationSyntaxError ''name'' ''package'')"
proof -
  have dollar_present: "files dollar_fs ''Cargo.toml'' = Some dollar_text"
    by (simp add: dollar_fs_def)
  have dollar_parsed: "dollar_read_file (get_config_parser 3) dollar_text = Inr dollar_parser"
    by (simp add: dollar_read_file_def get_config_parser_def ConfigParser_def dollar_parser_def)
  have dollar_section: "sections dollar_parser ''package'' = Some dollar_package"
    by (simp add: dollar_parser_def)
  have dollar_absent: "dollar_package ''version'' = None" "defaults dollar_parser ''version'' = None"
    by (simp_all add: dollar_package_def dollar_parser_def)
  have dollar_version: "get_value 3 dollar_parser ''package'' ''version'' = Inl (KeyError ''version'')"
    by code_simp
  have dollar_name:
    "get_value 3 dollar_parser ''package'' ''name'' = Inl (InterpolationSyntaxError ''name'' ''package'')"
    by code_simp
  have dollar_result:
    "snd (get_current_configuration_values dollar_read_file 3 dollar_fs ''Cargo.toml'')
       = Inl (InterpolationSyntaxError ''name'' ''package'')"
    by (simp only: get_current_configuration_values_parsed
          [of dollar_fs "''Cargo.toml''" dollar_text dollar_read_file 3 dollar_parser,
           OF dollar_present dollar_parsed]
          dollar_name sum.case)
  have present: "files sample_fs ''defaulted.toml'' = Some defaulted_text"
    by (simp add: sample_fs_def)
  have package: "sections defaulted_parser ''package'' = Some defaulted_package"
    by (simp add: defaulted_parser_def)
  have absent: "defaulted_package ''name'' = None"
    by (simp add: defaulted_package_def)
  have name: "get_value 3 defaulted_parser ''package'' ''name'' = Inr ''foo''"
    by code_simp
  have version: "get_value 3 defaulted_parser ''package'' ''version'' = Inr ''1.0''"
    by code_simp
  have description: "get_value 3 defaulted_parser ''package'' ''description'' = Inr ''d''"
    by code_simp
  have homepage: "get_value 3 defaulted_parser ''package'' ''homepage'' = Inr ''h''"
    by code_simp
  have "snd (get_current_configuration_values sample_read_file 3 sample_fs ''defaulted.toml'')
       = Inr (Map.empty(''name'' \<mapsto> ''foo'', ''version'' \<mapsto> ''1.0'',
                ''description'' \<mapsto> ''d'', ''homepage'' \<mapsto> ''h''))"
    by (simp only: get_current_configuration_values_parsed
          [of sample_fs "''defaulted.toml''" defaulted_text sample_read_file 3 defaulted_parser,
           OF present sample_read_file_defaulted]
          name version description homepage sum.case)
  with present sample_read_file_defaulted package absent
    dollar_present dollar_parsed dollar_section dollar_absent dollar_version dollar_result
  show ?thesis
    by simp
qed

subsection \<open>The file behind the configuration\<close>

text \<open>A missing file raises before any descriptor is handed out.\<close>

lemma with_read_configuration_missing_file:
  "files fs configuration_file = None \<Longrightarrow>
   with_read_configuration read_file major fs configuration_file body
   = (fs, Inl (FileNotFoundError configuration_file))"
  by (simp add: with_read_configuration_def read_configuration_def open_file_def)

text \<open>Whenever the file exists, its descriptor is still unclosed after the \<open>with\<close>
  block, whatever \<open>read_file\<close> and the block did.\<close>

lemma with_read_configuration_leaves_open:
  "files fs configuration_file = Some content \<Longrightarrow>
   unclosed (fst (with_read_configuration read_file major fs configuration_file body))
   = insert (next_fd fs) (unclosed fs)"
  by (simp add: with_read_configuration_def read_configuration_def open_file_def
      split: sum.splits)

text \<open>
  Claim C4 says that the file handle is released when the scope of
  \<open>read_configuration\<close> is left, on every path. The source opens the file and calls
  \<open>close\<close> nowhere. Starting with no unclosed descriptor, descriptor 3 is unclosed after
  a block that returns, after a block that raises, and after a file that \<open>read_file\<close>
  rejects.
\<close>

theorem read_configuration_leaves_file_open:
  "unclosed sample_fs = {}
   \<and> with_read_configuration sample_read_file 3 sample_fs ''Cargo.toml'' (\<lambda>parser. Inr ())
       = (sample_fs\<lparr>unclosed := {3}, next_fd := 4\<rparr>, Inr ())
   \<and> with_read_configuration sample_read_file 3 sample_fs ''Cargo.toml''
         (\<lambda>parser. Inl (RuntimeError ''raised in the block'') :: error + unit)
       = (sample_fs\<lparr>unclosed := {3}, next_fd := 4\<rparr>, Inl (RuntimeError ''raised in the block''))
   \<and> with_read_configuration sample_read_file 3 sample_fs ''broken.toml'' (\<lambda>parser. Inr ())
       = (sample_fs\<lparr>unclosed := {3}, next_fd := 4\<rparr>, Inl (ParsingError broken_text))"
  by (simp add: with_read_configuration_def read_configuration_def open_file_def
      sample_fs_def sample_read_file_def sample_text_def broken_text_def defaulted_text_def
      incomplete_text_def)

text \<open>The same after reading the four values of the sample \<open>Cargo.toml\<close>.\<close>

lemma get_current_configuration_values_leaves_file_open:
  "unclosed (fst (get_current_configuration_values sample_read_file 3 sample_fs ''Cargo.toml''))
   = {3}"
  unfolding get_current_configuration_values_def
  by (simp add: with_read_configuration_leaves_open [where content = sample_text]
      sample_fs_def)

end
